theory Spec2Isabelle
  imports Complex_Main "HOL-Library.Word"
begin

unbundle bit_operations_syntax

section \<open>Arithmetic of the embedding\<close>

text \<open>
  The routines of \<^verbatim>\<open>sim5disk-nt.c\<close> compute in C \<^verbatim>\<open>double\<close> and keep the disk
  configuration in \<^verbatim>\<open>static float\<close> variables. The embedding reads every
  \<^verbatim>\<open>double\<close> operation as the exact operation on the reals (\<^verbatim>\<open>sqrt\<close>, \<^verbatim>\<open>log\<close>,
  \<^verbatim>\<open>pow\<close>, \<^verbatim>\<open>acos\<close>, \<^verbatim>\<open>cos\<close>, \<^verbatim>\<open>exp\<close>, \<^verbatim>\<open>fmax\<close> become \<open>sqrt\<close>, \<open>ln\<close>,
  \<open>powr\<close>, \<open>arccos\<close>, \<open>cos\<close>, \<open>exp\<close>, \<open>max\<close>): rounding of double arithmetic,
  infinities and NaN are not represented. Where the C code would divide by zero,
  take the logarithm or a fractional power of a negative number, the HOL term has the
  value that HOL's total functions give it (\<open>x / 0 = 0\<close>, \<open>ln (- x) = ln x\<close>).
  The one rounding that is kept is the narrowing of a \<^verbatim>\<open>double\<close> to a \<^verbatim>\<open>float\<close>
  on every store to a static variable.
\<close>

definition round_half_even :: "real \<Rightarrow> int" where
  "round_half_even y =
     (let n = \<lfloor>y\<rfloor>; d = y - of_int n
      in if d < 1 / 2 then n else if 1 / 2 < d then n + 1
         else if even n then n else n + 1)"

definition float_exponent :: "real \<Rightarrow> int" where
  "float_exponent x = max (- 126) \<lfloor>log 2 \<bar>x\<bar>\<rfloor>"

text \<open>
  Conversion of a \<^verbatim>\<open>double\<close> to IEEE binary32 (24 bit significand, least normal
  exponent \<open>-126\<close>, round to nearest, ties to even). A value beyond the range of
  \<^verbatim>\<open>float\<close> converts to an infinity in C; here the exponent is unbounded above.
\<close>

definition to_float :: "real \<Rightarrow> real" where
  "to_float x =
     (if x = 0 then 0
      else let q = 2 powi (float_exponent x - 23)
           in of_int (round_half_even (x / q)) * q)"

definition is_float :: "real \<Rightarrow> bool" where
  "is_float x \<longleftrightarrow> (\<exists>m e. \<bar>m\<bar> \<le> 2 ^ 24 \<and> - 149 \<le> e \<and> x = of_int m * 2 powi e)"

text \<open>
  Modelled from the spec: the macros \<^verbatim>\<open>sqr\<close>, \<^verbatim>\<open>sqr3\<close>, \<^verbatim>\<open>sqr4\<close> of
  \<^verbatim>\<open>sim5math.h\<close>, which is not among the sources. The spec writes \<^verbatim>\<open>sqr(x1-a)\<close>
  as a square; \<^verbatim>\<open>sqr3\<close> and \<^verbatim>\<open>sqr4\<close> are the third and fourth power of the
  Novikov-Thorne correction factors.
\<close>

definition sqr :: "real \<Rightarrow> real" where "sqr x = x * x"
definition sqr3 :: "real \<Rightarrow> real" where "sqr3 x = x * x * x"
definition sqr4 :: "real \<Rightarrow> real" where "sqr4 x = x * x * x * x"

section \<open>The static variables\<close>

record disk_nt =
  disk_nt_bh_mass :: real
  disk_nt_bh_spin :: real
  disk_nt_disk_mdot :: real
  disk_nt_disk_rms :: real
  disk_nt_disk_alpha :: real
  disk_nt_options :: "32 word"

text \<open>The initialisers of the static variables, each narrowed to \<^verbatim>\<open>float\<close>.\<close>

definition disk_nt_initial :: disk_nt where
  "disk_nt_initial =
     \<lparr>disk_nt_bh_mass = to_float 10, disk_nt_bh_spin = to_float 0,
      disk_nt_disk_mdot = to_float (1 / 10), disk_nt_disk_rms = to_float 6,
      disk_nt_disk_alpha = to_float (1 / 10), disk_nt_options = 0\<rparr>"

section \<open>What the unit takes from the rest of the library\<close>

text \<open>
  \<^verbatim>\<open>rtbis\<close> (bisection, \<^verbatim>\<open>sim5roots.c\<close>) is handed a callback that writes a static
  variable of this unit. The routine itself cannot name that variable, so all it can do
  to the disk's state is to call the callback, look at the number that comes back and go
  on from there until it returns its status and the content of the result cell. A run of
  the routine is therefore a finite tree of calls.
\<close>

datatype rtbis_run =
    Rtbis_return int real
  | Rtbis_call real "real \<Rightarrow> rtbis_run"

primrec run_rtbis :: "rtbis_run \<Rightarrow> (real \<Rightarrow> 's \<Rightarrow> real \<times> 's) \<Rightarrow> 's \<Rightarrow> (int \<times> real) \<times> 's" where
  "run_rtbis (Rtbis_return res result) fx s = ((res, result), s)"
| "run_rtbis (Rtbis_call x k) fx s = (case fx x s of (y, s') \<Rightarrow> run_rtbis (k y) fx s')"

text \<open>
  The parts of the library that are used here and are not among the sources:
  the integrator \<^verbatim>\<open>integrate_simpson(f, a, b, acc)\<close>, whose integrand only reads the
  state, the root finder \<^verbatim>\<open>rtbis(x1, x2, xacc, fx, &result)\<close>, and the constants of
  \<^verbatim>\<open>sim5const.h\<close> and of the header of this unit.
\<close>

record externals =
  integrate_simpson :: "(real \<Rightarrow> real) \<Rightarrow> real \<Rightarrow> real \<Rightarrow> real \<Rightarrow> real"
  rtbis :: "real \<Rightarrow> real \<Rightarrow> real \<Rightarrow> rtbis_run"
  grav_radius :: real
  L_Edd :: real
  Mdot_Edd :: real
  DISK_NT_OPTION_LUMINOSITY :: "32 word"

section \<open>Queries\<close>

definition disk_nt_r_min :: "disk_nt \<Rightarrow> real" where
  "disk_nt_r_min st =
     (let a = disk_nt_bh_spin st;
          sga = (if 0 \<le> a then 1 else - 1);
          z1 = 1 + (1 - a * a) powr (1 / 3) * ((1 + a) powr (1 / 3) + (1 - a) powr (1 / 3));
          z2 = sqrt (3 * a * a + z1 * z1);
          r0 = 3 + z2 - sga * sqrt ((3 - z1) * (3 + z1 + 2 * z2))
      in r0 + 1 / 1000)"

definition disk_nt_flux :: "disk_nt \<Rightarrow> real \<Rightarrow> real" where
  "disk_nt_flux st r =
     (if r \<le> disk_nt_disk_rms st then 0
      else
        let a = disk_nt_bh_spin st;
            x = sqrt r;
            x0 = sqrt (disk_nt_disk_rms st);
            x1 = 2 * cos (1 / 3 * arccos a - pi / 3);
            x2 = 2 * cos (1 / 3 * arccos a + pi / 3);
            x3 = - 2 * cos (1 / 3 * arccos a);
            f0 = x - x0 - 1.5 * a * ln (x / x0);
            f1 = 3 * sqr (x1 - a) / (x1 * (x1 - x2) * (x1 - x3)) * ln ((x - x1) / (x0 - x1));
            f2 = 3 * sqr (x2 - a) / (x2 * (x2 - x1) * (x2 - x3)) * ln ((x - x2) / (x0 - x2));
            f3 = 3 * sqr (x3 - a) / (x3 * (x3 - x1) * (x3 - x2)) * ln ((x - x3) / (x0 - x3));
            F = 1 / (4 * pi * r) * 1.5 / (x * x * (x * x * x - 3 * x + 2 * a)) * (f0 - f1 - f2 - f3)
        in 91721376255 * 10 ^ 18 * F * disk_nt_disk_mdot st / disk_nt_bh_mass st)"

definition disk_nt_mdot :: "disk_nt \<Rightarrow> real" where
  "disk_nt_mdot st = disk_nt_disk_mdot st"

definition disk_nt_ell :: "disk_nt \<Rightarrow> real \<Rightarrow> real" where
  "disk_nt_ell st r0 =
     (let a = disk_nt_bh_spin st;
          r = max (disk_nt_disk_rms st) r0
      in (r * r - 2 * a * sqrt r + a * a) / (sqrt r * r - 2 * sqrt r + a))"

definition disk_nt_sigma :: "externals \<Rightarrow> disk_nt \<Rightarrow> real \<Rightarrow> real" where
  "disk_nt_sigma E st r =
     (if r < disk_nt_disk_rms st then 0
      else
        let a = disk_nt_bh_spin st;
            x = sqrt r;
            x0 = sqrt (disk_nt_disk_rms st);
            x1 = 2 * cos (1 / 3 * arccos a - pi / 3);
            x2 = 2 * cos (1 / 3 * arccos a + pi / 3);
            x3 = - 2 * cos (1 / 3 * arccos a);
            xA = 1 + sqr a / sqr r + 2 * sqr a / sqr3 r;
            xB = 1 + a / (x * x * x);
            xC = 1 - 3 / (x * x) + 2 * a / (x * x * x);
            xD = 1 - 2 / r + sqr a / sqr r;
            xE = 1 + 4 * sqr a / sqr r - 4 * sqr a / sqr3 r + 3 * sqr4 a / sqr4 r;
            f0 = x - x0 - 1.5 * a * ln (x / x0);
            f1 = 3 * (x1 - a) * (x1 - a) / (x1 * (x1 - x2) * (x1 - x3)) * ln ((x - x1) / (x0 - x1));
            f2 = 3 * (x2 - a) * (x2 - a) / (x2 * (x2 - x1) * (x2 - x3)) * ln ((x - x2) / (x0 - x2));
            f3 = 3 * (x3 - a) * (x3 - a) / (x3 * (x3 - x2) * (x3 - x1)) * ln ((x - x3) / (x0 - x3));
            xL = (1 + a / (x * x * x)) / sqrt (1 - 3 / (x * x) + 2 * a / (x * x * x)) / x
                   * (f0 - f1 - f2 - f3);
            xMdot = disk_nt_disk_mdot st * disk_nt_bh_mass st * Mdot_Edd E / 10 ^ 17;
            r_im = 40 * ((disk_nt_disk_alpha st) powr (2 / 21) / (disk_nt_bh_mass st / 3) powr (2 / 3)
                         * xMdot powr (16 / 20))
                     * xA powr (20 / 21) * xB powr (- 36 / 21) * xD powr (- 8 / 21)
                     * xE powr (- 10 / 21) * xL powr (16 / 21)
        in if r < r_im
           then 20 * (disk_nt_bh_mass st / 3) / xMdot / disk_nt_disk_alpha st * sqrt (r * r * r)
                  * 1 / (xA * xA) * xB ^ 3 * sqrt xC * xE * 1 / xL
           else 5 * 10 ^ 4 * (disk_nt_bh_mass st / 3) powr (- 2 / 5) * xMdot powr (3 / 5)
                  * (disk_nt_disk_alpha st) powr (- 4 / 5) * r powr (- 3 / 5) * xB powr (- 4 / 5)
                  * sqrt xC * xD powr (- 4 / 5) * xL powr (3 / 5))"

section \<open>Luminosity, its inverse and the setup\<close>

definition disk_rmax :: real where
  "disk_rmax = to_float (10 ^ 5)"

definition func_luminosity :: "disk_nt \<Rightarrow> real \<Rightarrow> real" where
  "func_luminosity st log_r =
     (let r = exp log_r;
          gtt = - 1 + 2 / r;
          gtf = - 2 * disk_nt_bh_spin st / r;
          gff = sqr r + sqr (disk_nt_bh_spin st) + 2 * sqr (disk_nt_bh_spin st) / r;
          Omega = 1 / (disk_nt_bh_spin st + r powr 1.5);
          U_t = sqrt (- 1 / (gtt + 2 * Omega * gtf + sqr Omega * gff)) * (gtt + Omega * gtf);
          F = disk_nt_flux st r
      in 2 * pi * r * 2 * (- U_t) * F * r)"

definition disk_nt_lumi :: "externals \<Rightarrow> disk_nt \<Rightarrow> real" where
  "disk_nt_lumi E st =
     (let L = integrate_simpson E (func_luminosity st) (ln (disk_nt_disk_rms st)) (ln disk_rmax)
                (1 / 10 ^ 5);
          L' = L * sqr (disk_nt_bh_mass st * grav_radius E)
      in L' / (L_Edd E * disk_nt_bh_mass st))"

definition fce :: "externals \<Rightarrow> real \<Rightarrow> real \<Rightarrow> disk_nt \<Rightarrow> real \<times> disk_nt" where
  "fce E L0 xmdot st =
     (let st' = st\<lparr>disk_nt_disk_mdot := to_float xmdot\<rparr>
      in (L0 - disk_nt_lumi E st', st'))"

definition disk_nt_find_mdot_for_luminosity :: "externals \<Rightarrow> real \<Rightarrow> disk_nt \<Rightarrow> real \<times> disk_nt" where
  "disk_nt_find_mdot_for_luminosity E L0 st =
     (case run_rtbis (rtbis E 0 100 (1 / 10 ^ 6)) (fce E L0) st of
        ((res, L), st') \<Rightarrow> (if res \<noteq> 0 then L else 0, st'))"

definition disk_nt_setup ::
  "externals \<Rightarrow> real \<Rightarrow> real \<Rightarrow> real \<Rightarrow> real \<Rightarrow> 32 word \<Rightarrow> disk_nt \<Rightarrow> int \<times> disk_nt" where
  "disk_nt_setup E M a mdot_or_L alpha opts st =
     (let st1 = st\<lparr>disk_nt_bh_mass := to_float M\<rparr>;
          st2 = st1\<lparr>disk_nt_bh_spin := to_float a\<rparr>;
          st3 = st2\<lparr>disk_nt_disk_rms := to_float (disk_nt_r_min st2)\<rparr>;
          st4 = st3\<lparr>disk_nt_disk_alpha := to_float alpha\<rparr>;
          st5 = st4\<lparr>disk_nt_options := opts\<rparr>
      in if disk_nt_options st5 AND DISK_NT_OPTION_LUMINOSITY E \<noteq> 0
         then (case disk_nt_find_mdot_for_luminosity E mdot_or_L st5 of
                 (m, st6) \<Rightarrow> (0, st6\<lparr>disk_nt_disk_mdot := to_float m\<rparr>))
         else (0, st5\<lparr>disk_nt_disk_mdot := to_float mdot_or_L\<rparr>))"

section \<open>The formulas as the specification writes them\<close>

text \<open>The three roots of \<open>x\<^sup>3 - 3 x + 2 a = 0\<close> in trigonometric form.\<close>

definition root1 :: "real \<Rightarrow> real" where "root1 a = 2 * cos (arccos a / 3 - pi / 3)"
definition root2 :: "real \<Rightarrow> real" where "root2 a = 2 * cos (arccos a / 3 + pi / 3)"
definition root3 :: "real \<Rightarrow> real" where "root3 a = - 2 * cos (arccos a / 3)"

definition log_term :: "real \<Rightarrow> real \<Rightarrow> real \<Rightarrow> real \<Rightarrow> real \<Rightarrow> real \<Rightarrow> real" where
  "log_term a xi xj xk x x0 =
     3 * (xi - a)\<^sup>2 / (xi * (xi - xj) * (xi - xk)) * ln ((x - xi) / (x0 - xi))"

definition F_hat :: "real \<Rightarrow> real \<Rightarrow> real \<Rightarrow> real" where
  "F_hat a r_ms r =
     (let x = sqrt r; x0 = sqrt r_ms;
          x1 = root1 a; x2 = root2 a; x3 = root3 a;
          f0 = x - x0 - 1.5 * a * ln (x / x0);
          f1 = log_term a x1 x2 x3 x x0;
          f2 = log_term a x2 x3 x1 x x0;
          f3 = log_term a x3 x1 x2 x x0
      in (1 / (4 * pi * r)) * (1.5 / (x\<^sup>2 * (x ^ 3 - 3 * x + 2 * a))) * (f0 - f1 - f2 - f3))"

definition Z1 :: "real \<Rightarrow> real" where
  "Z1 a = 1 + (1 - a\<^sup>2) powr (1 / 3) * ((1 + a) powr (1 / 3) + (1 - a) powr (1 / 3))"

definition Z2 :: "real \<Rightarrow> real" where
  "Z2 a = sqrt (3 * a\<^sup>2 + (Z1 a)\<^sup>2)"

definition r_isco :: "real \<Rightarrow> real" where
  "r_isco a = 3 + Z2 a - sgn a * sqrt ((3 - Z1 a) * (3 + Z1 a + 2 * Z2 a))"

definition ell_spec :: "real \<Rightarrow> real \<Rightarrow> real" where
  "ell_spec a r = (r\<^sup>2 - 2 * a * sqrt r + a\<^sup>2) / (r powr (3 / 2) - 2 * sqrt r + a)"

text \<open>
  The luminosity as the specification writes it: the expression that it gives for
  \<open>-U_t\<close> over the equatorial Kerr metric, the emitted element
  \<open>dL/d(log r) = 2 pi r * 2 * (-U_t) * flux r * r\<close>, and the integral of that element over
  \<open>log r\<close> from \<open>log r_ms\<close> to \<open>log 10\<^sup>5\<close> with tolerance \<open>10\<^sup>-\<^sup>5\<close>, multiplied by
  \<open>(M r_g)\<^sup>2\<close> and divided by \<open>L_Edd M\<close>.
\<close>

definition minus_U_t_spec :: "real \<Rightarrow> real \<Rightarrow> real" where
  "minus_U_t_spec a r =
     (let g_tt = - 1 + 2 / r;
          g_tphi = - 2 * a / r;
          g_phiphi = r\<^sup>2 + a\<^sup>2 + 2 * a\<^sup>2 / r;
          Omega = 1 / (a + r powr (3 / 2))
      in (g_tt + Omega * g_tphi) * sqrt (- 1 / (g_tt + 2 * Omega * g_tphi + Omega\<^sup>2 * g_phiphi)))"

definition dL_dlogr_spec :: "disk_nt \<Rightarrow> real \<Rightarrow> real" where
  "dL_dlogr_spec st r =
     2 * pi * r * 2 * minus_U_t_spec (disk_nt_bh_spin st) r * disk_nt_flux st r * r"

definition lumi_spec :: "externals \<Rightarrow> disk_nt \<Rightarrow> real" where
  "lumi_spec E st =
     integrate_simpson E (\<lambda>log_r. dL_dlogr_spec st (exp log_r))
         (ln (disk_nt_disk_rms st)) (ln (10 ^ 5)) (1 / 10 ^ 5)
       * (disk_nt_bh_mass st * grav_radius E)\<^sup>2 / (L_Edd E * disk_nt_bh_mass st)"

text \<open>An integrator is homogeneous when a constant factor of the integrand can be taken out.\<close>

definition homogeneous :: "((real \<Rightarrow> real) \<Rightarrow> real \<Rightarrow> real \<Rightarrow> real \<Rightarrow> real) \<Rightarrow> bool" where
  "homogeneous I \<longleftrightarrow> (\<forall>k f a b acc. I (\<lambda>x. k * f x) a b acc = k * I f a b acc)"

text \<open>
  The residual \<open>h(mdot) = L0 - lumi(mdot)\<close> of the inverse problem as a function of the
  trial value alone, and a run of the root finder against such a function: its outcome,
  and the last point at which it asked for a value.
\<close>

definition residual :: "externals \<Rightarrow> real \<Rightarrow> disk_nt \<Rightarrow> real \<Rightarrow> real" where
  "residual E L0 st m = L0 - disk_nt_lumi E (st\<lparr>disk_nt_disk_mdot := to_float m\<rparr>)"

primrec eval_rtbis :: "rtbis_run \<Rightarrow> (real \<Rightarrow> real) \<Rightarrow> int \<times> real" where
  "eval_rtbis (Rtbis_return res result) h = (res, result)"
| "eval_rtbis (Rtbis_call x k) h = eval_rtbis (k (h x)) h"

primrec last_trial :: "rtbis_run \<Rightarrow> (real \<Rightarrow> real) \<Rightarrow> real option" where
  "last_trial (Rtbis_return res result) h = None"
| "last_trial (Rtbis_call x k) h =
     (case last_trial (k (h x)) h of None \<Rightarrow> Some x | Some x' \<Rightarrow> Some x')"

definition stored_trial :: "disk_nt \<Rightarrow> real option \<Rightarrow> disk_nt" where
  "stored_trial st t = (case t of None \<Rightarrow> st | Some m \<Rightarrow> st\<lparr>disk_nt_disk_mdot := to_float m\<rparr>)"

text \<open>
  The state of the static variables when \<^verbatim>\<open>disk_nt_setup\<close> reaches its branch on the
  options: the five assignments that come before it.
\<close>

definition configured :: "real \<Rightarrow> real \<Rightarrow> real \<Rightarrow> 32 word \<Rightarrow> disk_nt \<Rightarrow> disk_nt" where
  "configured M a alpha opts st =
     (let st1 = st\<lparr>disk_nt_bh_mass := to_float M\<rparr>;
          st2 = st1\<lparr>disk_nt_bh_spin := to_float a\<rparr>;
          st3 = st2\<lparr>disk_nt_disk_rms := to_float (disk_nt_r_min st2)\<rparr>;
          st4 = st3\<lparr>disk_nt_disk_alpha := to_float alpha\<rparr>
      in st4\<lparr>disk_nt_options := opts\<rparr>)"

definition same_but_mdot :: "disk_nt \<Rightarrow> disk_nt \<Rightarrow> bool" where
  "same_but_mdot s s' \<longleftrightarrow>
     disk_nt_bh_mass s' = disk_nt_bh_mass s \<and> disk_nt_bh_spin s' = disk_nt_bh_spin s \<and>
     disk_nt_disk_rms s' = disk_nt_disk_rms s \<and> disk_nt_disk_alpha s' = disk_nt_disk_alpha s \<and>
     disk_nt_options s' = disk_nt_options s"

text \<open>
  The polynomials behind the bracket of the flux: the cubic whose roots are \<open>x1, x2, x3\<close>,
  the quartic \<open>x\<^sup>4 - 6 x\<^sup>2 + 8 a x - 3 a\<^sup>2\<close> that vanishes at the marginally stable orbit
  (\<open>x = sqrt r\<close>), the quadratic that the coefficients of the logarithms interpolate, and
  the bracket \<open>f0 - f1 - f2 - f3\<close> as a function of \<open>x\<close>.
\<close>

definition cubic :: "real \<Rightarrow> real \<Rightarrow> real" where
  "cubic a t = t ^ 3 - 3 * t + 2 * a"

definition quartic :: "real \<Rightarrow> real \<Rightarrow> real" where
  "quartic a t = t ^ 4 - 6 * t\<^sup>2 + 8 * a * t - 3 * a\<^sup>2"

definition weight_poly :: "real \<Rightarrow> real \<Rightarrow> real" where
  "weight_poly a t = - (3 / 2) * (a * t\<^sup>2 - 2 * t + a)"

definition bracket :: "real \<Rightarrow> real \<Rightarrow> real \<Rightarrow> real" where
  "bracket a x0 t =
     t - x0 - 1.5 * a * ln (t / x0)
       - log_term a (root1 a) (root2 a) (root3 a) t x0
       - log_term a (root2 a) (root3 a) (root1 a) t x0
       - log_term a (root3 a) (root1 a) (root2 a) t x0"

section \<open>An instance of the external routines\<close>

text \<open>
  Modelled from the spec: the adaptive Simpson integrator (\<^verbatim>\<open>sim5integration.c\<close>, not
  among the sources). The spec describes recursive subdivision that compares \<open>S(a,b)\<close>
  with \<open>S(a,m) + S(m,b)\<close>, accepts when the difference is below
  \<open>15 * eps * (b - a)\<close>, and enforces a minimum depth. The first argument bounds the
  depth of the recursion, the second is the minimum depth.
\<close>

definition simpson_rule :: "(real \<Rightarrow> real) \<Rightarrow> real \<Rightarrow> real \<Rightarrow> real" where
  "simpson_rule f a b = (b - a) / 6 * (f a + 4 * f ((a + b) / 2) + f b)"

primrec adaptive_simpson :: "nat \<Rightarrow> nat \<Rightarrow> (real \<Rightarrow> real) \<Rightarrow> real \<Rightarrow> real \<Rightarrow> real \<Rightarrow> real" where
  "adaptive_simpson 0 d f a b eps =
     simpson_rule f a ((a + b) / 2) + simpson_rule f ((a + b) / 2) b"
| "adaptive_simpson (Suc n) d f a b eps =
     (let m = (a + b) / 2;
          whole = simpson_rule f a b;
          halves = simpson_rule f a m + simpson_rule f m b
      in if d = 0 \<and> \<bar>halves - whole\<bar> < 15 * eps * (b - a) then halves
         else adaptive_simpson n (d - 1) f a m eps + adaptive_simpson n (d - 1) f m b eps)"

text \<open>
  Modelled from the spec: the bisection root finder (\<^verbatim>\<open>sim5roots.c\<close>, not among the
  sources). The spec requires \<open>f(x_lo) * f(x_hi) < 0\<close>, halves the interval until its
  width is below the tolerance, and reports failure when the sign condition does not hold
  at entry or the maximum number of iterations is exceeded. It does not say which end of
  the bracket is evaluated first: the first argument of \<open>rtbis_spec\<close> chooses the order
  (\<open>True\<close>: the lower end first).
\<close>

primrec bisect :: "nat \<Rightarrow> real \<Rightarrow> real \<Rightarrow> real \<Rightarrow> real \<Rightarrow> rtbis_run" where
  "bisect 0 lo hi f_lo tol =
     (if hi - lo < tol then Rtbis_return 1 ((lo + hi) / 2) else Rtbis_return 0 0)"
| "bisect (Suc n) lo hi f_lo tol =
     (if hi - lo < tol then Rtbis_return 1 ((lo + hi) / 2)
      else Rtbis_call ((lo + hi) / 2)
             (\<lambda>f_mid. if f_lo * f_mid \<le> 0 then bisect n lo ((lo + hi) / 2) f_lo tol
                       else bisect n ((lo + hi) / 2) hi f_mid tol))"

definition rtbis_spec :: "bool \<Rightarrow> nat \<Rightarrow> real \<Rightarrow> real \<Rightarrow> real \<Rightarrow> rtbis_run" where
  "rtbis_spec lo_first max_steps x_lo x_hi tol =
     (if lo_first
      then Rtbis_call x_lo (\<lambda>f_lo. Rtbis_call x_hi (\<lambda>f_hi.
             if f_lo * f_hi < 0 then bisect max_steps x_lo x_hi f_lo tol else Rtbis_return 0 0))
      else Rtbis_call x_hi (\<lambda>f_hi. Rtbis_call x_lo (\<lambda>f_lo.
             if f_lo * f_hi < 0 then bisect max_steps x_lo x_hi f_lo tol else Rtbis_return 0 0)))"

text \<open>
  Externals for closed examples: the two routines above with at most 20 levels of
  refinement, minimum depth 5 and at most 100 bisection steps, the constants at their
  c.g.s. magnitudes, the luminosity option as the lowest bit. \<open>sim5_example\<close> evaluates
  the lower end of the bracket first, \<open>sim5_hi_first\<close> the upper end.
\<close>

definition sim5_example :: externals where
  "sim5_example =
     \<lparr>integrate_simpson = adaptive_simpson 20 5, rtbis = rtbis_spec True 100,
      grav_radius = 1476716 / 10, L_Edd = 1257142540 * 10 ^ 29, Mdot_Edd = 2225475942 * 10 ^ 9,
      DISK_NT_OPTION_LUMINOSITY = 1\<rparr>"

definition sim5_hi_first :: externals where
  "sim5_hi_first = sim5_example\<lparr>rtbis := rtbis_spec False 100\<rparr>"

definition scenario_S1 :: disk_nt where
  "scenario_S1 = snd (disk_nt_setup sim5_example 10 0 (1 / 10) (1 / 10) 0 disk_nt_initial)"

text \<open>An integrand that vanishes everywhere but at one point.\<close>

definition spike :: "real \<Rightarrow> real \<Rightarrow> real" where
  "spike v x = (if x = 1 / 64 then v else 0)"

section \<open>Narrowing to float\<close>

lemma to_float_0: "to_float 0 = 0"
  by (simp add: to_float_def)

lemma float_exponent_eq:
  assumes "2 powi e \<le> \<bar>x\<bar>" "\<bar>x\<bar> < 2 powi (e + 1)" "- 126 \<le> e"
  shows "float_exponent x = e"
proof -
  have pos: "0 < \<bar>x\<bar>" using assms(1) by (smt (verit) zero_less_power_int)
  have "2 powr (of_int e) \<le> \<bar>x\<bar>" using assms(1) by (simp add: powr_real_of_int')
  then have 1: "of_int e \<le> log 2 \<bar>x\<bar>" using pos by (simp add: le_log_iff)
  have "\<bar>x\<bar> < 2 powr (of_int (e + 1))" using assms(2) powr_real_of_int' [of 2 "e + 1"] by simp
  then have 2: "log 2 \<bar>x\<bar> < of_int (e + 1)" using pos by (simp add: log_less_iff)
  have "\<lfloor>log 2 \<bar>x\<bar>\<rfloor> = e" using 1 2 by (simp add: floor_unique)
  then show ?thesis using assms(3) by (simp add: float_exponent_def)
qed

lemma to_float_eval:
  assumes "2 powi e \<le> \<bar>x\<bar>" "\<bar>x\<bar> < 2 powi (e + 1)" "- 126 \<le> e"
  shows "to_float x = of_int (round_half_even (x / 2 powi (e - 23))) * 2 powi (e - 23)"
proof -
  have "x \<noteq> 0" using assms(1) by (smt (verit) zero_less_power_int)
  then show ?thesis using float_exponent_eq [OF assms] by (simp add: to_float_def Let_def)
qed

lemma to_float_10: "to_float 10 = 10"
  using to_float_eval [of 3 10] by (simp add: round_half_even_def power_int_minus)

lemma to_float_100: "to_float 100 = 100"
  using to_float_eval [of 6 100] by (simp add: round_half_even_def power_int_minus)

lemma to_float_1e5: "to_float (10 ^ 5) = 10 ^ 5"
  using to_float_eval [of 16 "10 ^ 5"] by (simp add: round_half_even_def power_int_minus)

lemma to_float_half: "to_float (1 / 2) = 1 / 2"
  using to_float_eval [of "- 1" "1 / 2"] by (simp add: round_half_even_def power_int_minus)

lemma to_float_tenth: "to_float (1 / 10) = 13421773 / 134217728"
  using to_float_eval [of "- 4" "1 / 10"] by (simp add: round_half_even_def power_int_minus)

lemma to_float_6001: "to_float (6001 / 1000) = 12585009 / 2097152"
  using to_float_eval [of 2 "6001 / 1000"] by (simp add: round_half_even_def power_int_minus)

lemma round_half_even_bounds: "\<lfloor>y\<rfloor> \<le> round_half_even y \<and> round_half_even y \<le> \<lfloor>y\<rfloor> + 1"
  by (simp add: round_half_even_def Let_def)

lemma round_half_even_int: "round_half_even (of_int z) = z"
  by (simp add: round_half_even_def Let_def)

lemma below_next_power: "x \<noteq> 0 \<Longrightarrow> \<bar>x\<bar> < 2 powi (float_exponent x + 1)"
proof -
  assume x: "x \<noteq> 0"
  have "log 2 \<bar>x\<bar> < of_int (\<lfloor>log 2 \<bar>x\<bar>\<rfloor> + 1)" by linarith
  also have "\<dots> \<le> of_int (float_exponent x + 1)" by (simp add: float_exponent_def)
  finally have "log 2 \<bar>x\<bar> < of_int (float_exponent x + 1)" .
  then have "\<bar>x\<bar> < 2 powr of_int (float_exponent x + 1)" using x by (simp add: log_less_iff)
  then show ?thesis using powr_real_of_int' [of 2 "float_exponent x + 1"] by simp
qed

text \<open>The conversion yields a binary32 number, and leaves a binary32 number as it is.\<close>

lemma to_float_is_float: "is_float (to_float x)"
proof (cases "x = 0")
  case True
  have "to_float x = of_int 0 * 2 powi 0" by (simp add: True to_float_def)
  then show ?thesis unfolding is_float_def by (intro exI [of _ 0] conjI) simp_all
next
  case False
  define e where "e = float_exponent x"
  define q :: real where "q = 2 powi (e - 23)"
  define n where "n = round_half_even (x / q)"
  have q: "0 < q" by (simp add: q_def)
  have "\<bar>x\<bar> < 2 powi (e + 1)" using below_next_power [OF False] by (simp add: e_def)
  also have "(2::real) powi (e + 1) = 2 ^ 24 * q"
    by (simp add: q_def power_int_diff power_int_add)
  finally have "\<bar>x\<bar> / q < 2 ^ 24" using q by (simp add: pos_divide_less_eq)
  moreover have "\<bar>x / q\<bar> = \<bar>x\<bar> / q" using q by simp
  ultimately have "- (2 ^ 24) < x / q" "x / q < 2 ^ 24" by linarith+
  then have "- (2 ^ 24) \<le> \<lfloor>x / q\<rfloor>" "\<lfloor>x / q\<rfloor> < 2 ^ 24"
    by (simp_all add: le_floor_iff floor_less_iff)
  then have n: "\<bar>n\<bar> \<le> 2 ^ 24"
    using round_half_even_bounds [of "x / q"] unfolding n_def by linarith
  have e: "- 149 \<le> e - 23" by (simp add: e_def float_exponent_def)
  have "to_float x = of_int n * 2 powi (e - 23)"
    using False by (simp add: to_float_def Let_def n_def q_def e_def)
  then show ?thesis unfolding is_float_def using n e by blast
qed

lemma is_float_exact:
  assumes "is_float x"
  shows "to_float x = x"
proof (cases "x = 0")
  case True
  then show ?thesis by (simp add: to_float_def)
next
  case False
  obtain m e where m: "\<bar>m\<bar> \<le> 2 ^ 24" and e: "- 149 \<le> e" and x: "x = of_int m * 2 powi e"
    using assms unfolding is_float_def by blast
  define E where "E = float_exponent x"
  have ax: "\<bar>x\<bar> = of_int \<bar>m\<bar> * 2 powi e" by (simp add: x abs_mult)
  have "\<exists>z. x / 2 powi (E - 23) = of_int z"
  proof (cases "E - 23 \<le> e")
    case True
    then have "(2::real) powi e = 2 powi (E - 23) * 2 ^ nat (e - (E - 23))"
      by (simp add: power_int_add [symmetric] flip: power_int_of_nat)
    then have "x / 2 powi (E - 23) = of_int (m * 2 ^ nat (e - (E - 23)))"
      by (simp add: x)
    then show ?thesis by blast
  next
    case far: False
    then have E': "E = \<lfloor>log 2 \<bar>x\<bar>\<rfloor>"
      using e by (simp add: E_def float_exponent_def max_def split: if_splits)
    have "of_int E \<le> log 2 \<bar>x\<bar>" by (simp add: E')
    then have "2 powr of_int E \<le> \<bar>x\<bar>" using False by (simp add: le_log_iff)
    then have lo: "2 powi E \<le> \<bar>x\<bar>" by (simp add: powr_real_of_int')
    have top: "\<bar>x\<bar> \<le> 2 ^ 24 * 2 powi e"
      unfolding ax using m by (intro mult_right_mono) (simp_all add: of_int_le_numeral_power_cancel_iff)
    also have "\<dots> = 2 powi (e + 24)" by (simp add: power_int_add)
    also have "\<dots> \<le> 2 powi E" using far by (intro power_int_increasing) simp_all
    finally have hi: "\<bar>x\<bar> \<le> 2 powi E" .
    have e24: "e + 24 = E"
    proof (rule ccontr)
      assume "e + 24 \<noteq> E"
      then have "e + 24 < E" using far by simp
      then have "(2::real) powi (e + 24) < 2 powi E" by (intro power_int_strict_increasing) simp_all
      moreover have "\<bar>x\<bar> \<le> 2 powi (e + 24)" using top by (simp add: power_int_add)
      ultimately show False using lo by simp
    qed
    have "\<bar>x\<bar> = 2 powi E" using lo hi by simp
    then have "of_int \<bar>m\<bar> * 2 powi e = 2 ^ 24 * (2::real) powi e"
      unfolding ax by (simp add: e24 [symmetric] power_int_add)
    then have "real_of_int \<bar>m\<bar> = 2 ^ 24" by simp
    then have am: "\<bar>m\<bar> = 2 ^ 24" by (simp only: of_int_eq_numeral_power_cancel_iff)
    have "(2::real) powi e = 2 powi (E - 23) / 2"
      by (simp add: e24 [symmetric] power_int_diff power_int_add)
    then have "x / 2 powi (E - 23) = of_int m * (2 powi (E - 23) / 2) / 2 powi (E - 23)"
      by (simp only: x)
    then have "x / 2 powi (E - 23) = of_int m / 2" by simp
    moreover have "m = 2 ^ 24 \<or> m = - (2 ^ 24)" using am by linarith
    then have "real_of_int m / 2 = of_int (m div 2)" by auto
    ultimately have "x / 2 powi (E - 23) = of_int (m div 2)" by (simp only:)
    then show ?thesis by blast
  qed
  then obtain z where z: "x / 2 powi (E - 23) = of_int z" by blast
  have "to_float x = of_int (round_half_even (x / 2 powi (E - 23))) * 2 powi (E - 23)"
    using False by (simp add: to_float_def Let_def E_def)
  also have "\<dots> = of_int z * 2 powi (E - 23)" by (simp only: z round_half_even_int)
  also have "\<dots> = x" using z by (simp add: field_simps)
  finally show ?thesis .
qed



section \<open>The inner edge\<close>

lemma Z1_0: "Z1 0 = 3"
  by (simp add: Z1_def)

lemma Z2_0: "Z2 0 = 3"
  by (simp add: Z2_def Z1_0)

lemma r_isco_0: "r_isco 0 = 6"
  by (simp add: r_isco_def Z1_0 Z2_0)

text \<open>
  The code takes the sign as \<open>+1\<close> at \<open>a = 0\<close> where \<open>sgn 0 = 0\<close>; the square
  root that the sign multiplies vanishes there.
\<close>

lemma r_min_isco: "disk_nt_r_min st = r_isco (disk_nt_bh_spin st) + 1 / 1000"
proof (cases "disk_nt_bh_spin st = 0")
  case True
  then show ?thesis
    by (simp add: disk_nt_r_min_def r_isco_def Z1_0 Z2_0 Let_def)
next
  case False
  then have "(if 0 \<le> disk_nt_bh_spin st then 1 else - 1) = sgn (disk_nt_bh_spin st)"
    by (simp add: sgn_if)
  then show ?thesis
    by (simp add: disk_nt_r_min_def r_isco_def Z1_def Z2_def Let_def power2_eq_square mult.assoc)
qed

lemma configured_state:
  "configured M a alpha opts st =
     st\<lparr>disk_nt_bh_mass := to_float M, disk_nt_bh_spin := to_float a,
        disk_nt_disk_rms := to_float (r_isco (to_float a) + 1 / 1000),
        disk_nt_disk_alpha := to_float alpha, disk_nt_options := opts\<rparr>"
  by (simp add: configured_def Let_def r_min_isco)

section \<open>The root finder against the callback\<close>

lemma fce_residual:
  "fce E L0 m st = (residual E L0 st m, st\<lparr>disk_nt_disk_mdot := to_float m\<rparr>)"
  by (simp add: fce_def residual_def Let_def)

lemma residual_mdot: "residual E L0 (st\<lparr>disk_nt_disk_mdot := v\<rparr>) = residual E L0 st"
  by (rule ext) (simp add: residual_def)

text \<open>
  Every call of the callback overwrites \<^verbatim>\<open>disk_nt_disk_mdot\<close> before the luminosity is
  evaluated, so the values that the root finder sees are those of the residual of the
  state at entry, and the state at exit differs from it in the last trial value only.
\<close>

lemma run_rtbis_fce:
  "run_rtbis t (fce E L0) st =
     (eval_rtbis t (residual E L0 st), stored_trial st (last_trial t (residual E L0 st)))"
proof (induction t arbitrary: st)
  case (Rtbis_return res result)
  show ?case by (simp add: stored_trial_def)
next
  case (Rtbis_call x k)
  let ?s = "st\<lparr>disk_nt_disk_mdot := to_float x\<rparr>"
  have "run_rtbis (Rtbis_call x k) (fce E L0) st = run_rtbis (k (residual E L0 st x)) (fce E L0) ?s"
    by (simp add: fce_residual)
  also have "\<dots> = (eval_rtbis (k (residual E L0 st x)) (residual E L0 st),
                    stored_trial ?s (last_trial (k (residual E L0 st x)) (residual E L0 st)))"
    using Rtbis_call.IH [OF rangeI, of "residual E L0 st x" ?s] by (simp add: residual_mdot)
  finally show ?case
    by (simp add: stored_trial_def split: option.splits)
qed

lemma find_mdot_parts:
  "fst (disk_nt_find_mdot_for_luminosity E L0 st) =
     (if fst (eval_rtbis (rtbis E 0 100 (1 / 10 ^ 6)) (residual E L0 st)) \<noteq> 0
      then snd (eval_rtbis (rtbis E 0 100 (1 / 10 ^ 6)) (residual E L0 st)) else 0)"
  "snd (disk_nt_find_mdot_for_luminosity E L0 st) =
     stored_trial st (last_trial (rtbis E 0 100 (1 / 10 ^ 6)) (residual E L0 st))"
  by (simp_all add: disk_nt_find_mdot_for_luminosity_def run_rtbis_fce split_beta)

lemma find_mdot_frame: "same_but_mdot st (snd (disk_nt_find_mdot_for_luminosity E L0 st))"
  by (simp add: find_mdot_parts stored_trial_def same_but_mdot_def split: option.splits)

lemma setup_configured:
  "snd (disk_nt_setup E M a mdot_or_L alpha opts st) =
     (if opts AND DISK_NT_OPTION_LUMINOSITY E \<noteq> 0
      then (snd (disk_nt_find_mdot_for_luminosity E mdot_or_L (configured M a alpha opts st)))
              \<lparr>disk_nt_disk_mdot :=
                 to_float (fst (disk_nt_find_mdot_for_luminosity E mdot_or_L (configured M a alpha opts st)))\<rparr>
      else (configured M a alpha opts st)\<lparr>disk_nt_disk_mdot := to_float mdot_or_L\<rparr>)"
  by (simp add: disk_nt_setup_def configured_def Let_def split_beta)

lemma setup_spin: "disk_nt_bh_spin (snd (disk_nt_setup E M a mdot_or_L alpha opts st)) = to_float a"
  using find_mdot_frame [of "configured M a alpha opts st" E mdot_or_L]
  by (simp add: setup_configured same_but_mdot_def configured_state)

lemma scenario_S1_state:
  "scenario_S1 =
     \<lparr>disk_nt_bh_mass = 10, disk_nt_bh_spin = 0, disk_nt_disk_mdot = 13421773 / 134217728,
      disk_nt_disk_rms = 12585009 / 2097152, disk_nt_disk_alpha = 13421773 / 134217728,
      disk_nt_options = 0\<rparr>"
  by (simp add: scenario_S1_def setup_configured configured_state disk_nt_initial_def to_float_0
      to_float_10 to_float_tenth r_isco_0 to_float_6001)


lemma setup_rms:
  "disk_nt_disk_rms (snd (disk_nt_setup E M a mdot_or_L alpha opts st)) =
     to_float (disk_nt_r_min (snd (disk_nt_setup E M a mdot_or_L alpha opts st)))"
  using find_mdot_frame [of "configured M a alpha opts st" E mdot_or_L]
  by (simp add: setup_configured same_but_mdot_def configured_state r_min_isco)

text \<open>
  C2: for every spin in \<open>(-1, 1)\<close> (indeed for every stored spin) \<^verbatim>\<open>disk_nt_r_min\<close>
  returns \<open>r_isco + 1/1000\<close> with \<open>r_isco = 3 + Z2 - sgn a * sqrt ((3 - Z1) (3 + Z1 + 2 Z2))\<close>;
  after a setup with \<open>a = 0\<close> it returns \<open>6.001\<close>.
\<close>

theorem r_min_formula:
  "disk_nt_r_min st = r_isco (disk_nt_bh_spin st) + 1 / 1000 \<and>
   disk_nt_r_min (snd (disk_nt_setup E M 0 mdot_or_L alpha opts st0)) = 6001 / 1000"
  by (simp add: r_min_isco setup_spin to_float_0 r_isco_0)

section \<open>Flux\<close>

lemma scale_shape:
  fixes C p q d G m M :: real
  shows "C * (p * q / d * G) * m / M = C * (m / M) * (p * (q / d) * G)"
  by (simp add: mult_ac)

lemma log_term_code:
  "3 * sqr (xi - a) / (xi * (xi - xj) * (xi - xk)) * ln ((x - xi) / (x0 - xi)) = log_term a xi xj xk x x0"
  by (simp add: log_term_def sqr_def power2_eq_square)

lemma log_term_swap: "log_term a xi xj xk x x0 = log_term a xi xk xj x x0"
  by (simp add: log_term_def mult.commute mult.left_commute)

lemma roots_code:
  "2 * cos (1 / 3 * arccos a - pi / 3) = root1 a"
  "2 * cos (1 / 3 * arccos a + pi / 3) = root2 a"
  "- 2 * cos (1 / 3 * arccos a) = root3 a"
  by (simp_all add: root1_def root2_def root3_def)

lemma flux_outside:
  assumes "disk_nt_disk_rms st < r"
  shows "disk_nt_flux st r =
           91721376255 * 10 ^ 18 * (disk_nt_disk_mdot st / disk_nt_bh_mass st)
             * F_hat (disk_nt_bh_spin st) (disk_nt_disk_rms st) r"
proof -
  have cube: "sqrt r * sqrt r * (sqrt r * sqrt r * sqrt r - 3 * sqrt r + 2 * disk_nt_bh_spin st)
      = (sqrt r)\<^sup>2 * (sqrt r ^ 3 - 3 * sqrt r + 2 * disk_nt_bh_spin st)"
    by (simp only: power2_eq_square power3_eq_cube)
  have "\<not> r \<le> disk_nt_disk_rms st" using assms by simp
  then show ?thesis
    unfolding disk_nt_flux_def F_hat_def Let_def roots_code log_term_code cube
    by (simp only: if_False scale_shape log_term_swap [of _ "root2 _" "root1 _"])
qed

lemma roots_of_cubic:
  assumes "\<bar>a\<bar> \<le> 1"
  shows "root1 a ^ 3 - 3 * root1 a + 2 * a = 0"
    and "root2 a ^ 3 - 3 * root2 a + 2 * a = 0"
    and "root3 a ^ 3 - 3 * root3 a + 2 * a = 0"
proof -
  have ca: "cos (arccos a) = a" using assms by (simp add: abs_le_iff)
  have tr: "(2 * cos t) ^ 3 - 3 * (2 * cos t) = 2 * cos (3 * t)" for t :: real
    by (simp add: cos_treble_cos power_mult_distrib)
  have "3 * (arccos a / 3 - pi / 3) = arccos a - pi" by simp
  then have "cos (3 * (arccos a / 3 - pi / 3)) = - a" using ca by (simp only: cos_diff) simp
  then show "root1 a ^ 3 - 3 * root1 a + 2 * a = 0" unfolding root1_def tr by simp
  have "3 * (arccos a / 3 + pi / 3) = arccos a + pi" by simp
  then have "cos (3 * (arccos a / 3 + pi / 3)) = - a" using ca by (simp only: cos_add) simp
  then show "root2 a ^ 3 - 3 * root2 a + 2 * a = 0" unfolding root2_def tr by simp
  have "cos (arccos a) = 4 * cos (arccos a / 3) ^ 3 - 3 * cos (arccos a / 3)"
    using cos_treble_cos [of "arccos a / 3"] by simp
  then have "4 * cos (arccos a / 3) ^ 3 - 3 * cos (arccos a / 3) = a" using ca by simp
  moreover have "(- 2 * c) ^ 3 - 3 * (- 2 * c) + 2 * a = - 2 * (4 * c ^ 3 - 3 * c) + 2 * a" for c :: real
    by (simp add: power_mult_distrib)
  ultimately show "root3 a ^ 3 - 3 * root3 a + 2 * a = 0" unfolding root3_def by simp
qed

lemma flux_inside: "r \<le> disk_nt_disk_rms st \<Longrightarrow> disk_nt_flux st r = 0"
  by (simp add: disk_nt_flux_def)

text \<open>
  C1: for \<open>r > r_ms\<close> and \<open>\<bar>a\<bar> < 1\<close> the flux is \<open>9.1721376255e28 * mdot / M * F_hat r\<close>,
  where \<open>F_hat\<close> is the Page-Thorne expression over \<open>x = sqrt r\<close>, \<open>x0 = sqrt r_ms\<close> and
  the three trigonometric roots, which are roots of \<open>x\<^sup>3 - 3 x + 2 a\<close>.
\<close>

theorem flux_formula:
  assumes "disk_nt_disk_rms st < r" and "\<bar>disk_nt_bh_spin st\<bar> < 1"
  shows "disk_nt_flux st r =
           91721376255 * 10 ^ 18 * (disk_nt_disk_mdot st / disk_nt_bh_mass st)
             * F_hat (disk_nt_bh_spin st) (disk_nt_disk_rms st) r \<and>
         root1 (disk_nt_bh_spin st) ^ 3 - 3 * root1 (disk_nt_bh_spin st) + 2 * disk_nt_bh_spin st = 0 \<and>
         root2 (disk_nt_bh_spin st) ^ 3 - 3 * root2 (disk_nt_bh_spin st) + 2 * disk_nt_bh_spin st = 0 \<and>
         root3 (disk_nt_bh_spin st) ^ 3 - 3 * root3 (disk_nt_bh_spin st) + 2 * disk_nt_bh_spin st = 0"
proof -
  have "\<bar>disk_nt_bh_spin st\<bar> \<le> 1" using assms(2) by simp
  then show ?thesis using flux_outside [OF assms(1)] by (simp only: roots_of_cubic simp_thms)
qed

theorem flux_formula_witness:
  "disk_nt_disk_rms scenario_S1 < 10 \<and> \<bar>disk_nt_bh_spin scenario_S1\<bar> < 1 \<and>
   disk_nt_flux scenario_S1 10 =
     91721376255 * 10 ^ 18 * (13421773 / 134217728 / 10) * F_hat 0 (12585009 / 2097152) 10"
  using flux_formula [of scenario_S1 10] by (simp add: scenario_S1_state)

section \<open>The flux over the reals\<close>

subsection \<open>The marginally stable orbit solves the quartic\<close>

lemma cube_root_cube: "0 \<le> x \<Longrightarrow> (x powr (1 / 3)) ^ 3 = (x::real)"
proof (cases "x = 0")
  case True
  then show ?thesis by simp
next
  case False
  assume "0 \<le> x"
  then have x: "0 < x" using False by simp
  then have "0 < x powr (1 / 3)" by simp
  then have "(x powr (1 / 3)) ^ 3 = (x powr (1 / 3)) powr (real 3)"
    by (simp only: powr_realpow)
  also have "\<dots> = x powr 1" by (simp add: powr_powr)
  finally show ?thesis using x by simp
qed

lemma Z1_cubic:
  assumes "\<bar>a\<bar> \<le> 1"
  defines "w \<equiv> Z1 a - 1"
  shows "0 \<le> w" and "w ^ 3 = (1 - a\<^sup>2) * (3 * w + 2)"
proof -
  define p where "p = (1 + a) powr (1 / 3)"
  define q where "q = (1 - a) powr (1 / 3)"
  have pa: "0 \<le> 1 + a" "0 \<le> 1 - a" using assms(1) by (simp_all add: abs_le_iff)
  have p3: "p ^ 3 = 1 + a" unfolding p_def using pa by (simp add: cube_root_cube)
  have q3: "q ^ 3 = 1 - a" unfolding q_def using pa by (simp add: cube_root_cube)
  have "1 - a\<^sup>2 = (1 + a) * (1 - a)" by algebra
  then have "(1 - a\<^sup>2) powr (1 / 3) = p * q"
    unfolding p_def q_def using pa by (simp add: powr_mult)
  then have w: "w = p * q * (p + q)" by (simp add: w_def Z1_def p_def q_def)
  have pq: "0 \<le> p" "0 \<le> q" by (simp_all add: p_def q_def)
  show "0 \<le> w" unfolding w using pq by simp
  have "w ^ 3 = (p ^ 3 * q ^ 3) * (p ^ 3 + q ^ 3 + 3 * (p * q * (p + q)))"
    unfolding w by algebra
  also have "\<dots> = ((1 + a) * (1 - a)) * (2 + 3 * w)" unfolding p3 q3 w by simp
  finally show "w ^ 3 = (1 - a\<^sup>2) * (3 * w + 2)"
    by algebra
qed

lemma Z1_range:
  assumes "\<bar>a\<bar> \<le> 1"
  shows "1 \<le> Z1 a" and "Z1 a \<le> 3"
proof -
  define w where "w = Z1 a - 1"
  have w0: "0 \<le> w" and w3: "w ^ 3 = (1 - a\<^sup>2) * (3 * w + 2)"
    using Z1_cubic [OF assms] by (simp_all add: w_def)
  show "1 \<le> Z1 a" using w0 by (simp add: w_def)
  have "a\<^sup>2 \<le> 1" using assms by (simp add: abs_square_le_1)
  then have "(1 - a\<^sup>2) * (3 * w + 2) \<le> 1 * (3 * w + 2)"
    using w0 by (intro mult_right_mono) simp_all
  then have "w ^ 3 - 3 * w - 2 \<le> 0" using w3 by simp
  moreover have "w ^ 3 - 3 * w - 2 = (w - 2) * (w + 1)\<^sup>2"
    by algebra
  ultimately have "(w - 2) * (w + 1)\<^sup>2 \<le> 0" by simp
  moreover have "0 < (w + 1)\<^sup>2" using w0 by simp
  ultimately have "w - 2 \<le> 0" by (simp add: mult_le_0_iff)
  then show "Z1 a \<le> 3" by (simp add: w_def)
qed

lemma Z_discriminant:
  assumes "\<bar>a\<bar> \<le> 1"
  shows "(3 - Z1 a) * (3 * a\<^sup>2 + (Z1 a)\<^sup>2) = 8 * a\<^sup>2"
proof -
  define w where "w = Z1 a - 1"
  have w3: "w ^ 3 = (1 - a\<^sup>2) * (3 * w + 2)"
    using Z1_cubic [OF assms] by (simp_all add: w_def)
  have "(3 - Z1 a) * (3 * a\<^sup>2 + (Z1 a)\<^sup>2) = (2 - w) * (3 * a\<^sup>2 + (1 + w)\<^sup>2)"
    by (simp add: w_def)
  also have "\<dots> = 6 * a\<^sup>2 + 2 + 3 * w - 3 * a\<^sup>2 * w - w ^ 3"
    by algebra
  also have "\<dots> = 8 * a\<^sup>2" unfolding w3 by (simp add: algebra_simps)
  finally show ?thesis .
qed

lemma Z2_facts:
  assumes "\<bar>a\<bar> \<le> 1"
  shows "(Z2 a)\<^sup>2 = 3 * a\<^sup>2 + (Z1 a)\<^sup>2" and "2 \<le> Z2 a"
proof -
  show sq: "(Z2 a)\<^sup>2 = 3 * a\<^sup>2 + (Z1 a)\<^sup>2" by (simp add: Z2_def)
  define w where "w = Z1 a - 1"
  have w0: "0 \<le> w" and w3: "w ^ 3 = (1 - a\<^sup>2) * (3 * w + 2)"
    using Z1_cubic [OF assms] by (simp_all add: w_def)
  have "(3 * a\<^sup>2 + (1 + w)\<^sup>2 - 4) * (3 * w + 2) = 8 * w\<^sup>2 + 4 * w - 3 * ((1 - a\<^sup>2) * (3 * w + 2) - w ^ 3)"
    by algebra
  also have "\<dots> = 8 * w\<^sup>2 + 4 * w" by (simp only: w3 diff_self mult_zero_right diff_zero)
  finally have "0 \<le> (3 * a\<^sup>2 + (1 + w)\<^sup>2 - 4) * (3 * w + 2)" using w0 by simp
  moreover have "0 < 3 * w + 2" using w0 by simp
  ultimately have "0 \<le> 3 * a\<^sup>2 + (1 + w)\<^sup>2 - 4" by (simp add: zero_le_mult_iff)
  then have "2\<^sup>2 \<le> (Z2 a)\<^sup>2" unfolding sq by (simp add: w_def)
  moreover have "0 \<le> Z2 a" by (simp add: Z2_def)
  ultimately show "2 \<le> Z2 a" by (rule power2_le_imp_le)
qed

lemma isco_root:
  assumes "\<bar>a\<bar> \<le> 1"
  shows "\<exists>y. 1 \<le> y \<and> y\<^sup>2 = r_isco a \<and> quartic a y = 0"
proof -
  define z1 where "z1 = Z1 a"
  define z2 where "z2 = Z2 a"
  define s :: real where "s = (if 0 \<le> a then 1 else - 1)"
  define c where "c = sqrt (2 * (3 - z1))"
  define D where "D = sqrt (2 * (3 + z1 + 2 * z2))"
  define y where "y = (D - s * c) / 2"
  have z1: "1 \<le> z1" "z1 \<le> 3" using Z1_range [OF assms] by (simp_all add: z1_def)
  have z2sq: "z2\<^sup>2 = 3 * a\<^sup>2 + z1\<^sup>2" and z2: "2 \<le> z2"
    using Z2_facts [OF assms] by (simp_all add: z1_def z2_def)
  have disc: "(3 - z1) * (3 * a\<^sup>2 + z1\<^sup>2) = 8 * a\<^sup>2"
    using Z_discriminant [OF assms] by (simp add: z1_def)
  have s2: "s * s = 1" and sa: "s * \<bar>a\<bar> = a" by (simp_all add: s_def)
  have c0: "0 \<le> c" and c2: "c\<^sup>2 = 2 * (3 - z1)" using z1 by (simp_all add: c_def)
  have D0: "0 \<le> D" and D2: "D\<^sup>2 = 2 * (3 + z1 + 2 * z2)" using z1 z2 by (simp_all add: D_def)
  have "(c * z2)\<^sup>2 = 2 * ((3 - z1) * (3 * a\<^sup>2 + z1\<^sup>2))"
    by (simp add: power_mult_distrib c2 z2sq)
  also have "\<dots> = (4 * \<bar>a\<bar>)\<^sup>2" unfolding disc by (simp add: power_mult_distrib)
  finally have "(c * z2)\<^sup>2 = (4 * \<bar>a\<bar>)\<^sup>2" .
  moreover have "0 \<le> c * z2" using c0 z2 by simp
  ultimately have "c * z2 = 4 * \<bar>a\<bar>" by (rule power2_eq_imp_eq) simp
  then have cz: "s * (c * z2) = 4 * a" using sa by simp
  have cD: "c * D = 2 * sqrt ((3 - z1) * (3 + z1 + 2 * z2))"
  proof -
    have "c * D = sqrt ((2 * (3 - z1)) * (2 * (3 + z1 + 2 * z2)))"
      unfolding c_def D_def by (simp only: real_sqrt_mult)
    also have "(2 * (3 - z1)) * (2 * (3 + z1 + 2 * z2)) = 2\<^sup>2 * ((3 - z1) * (3 + z1 + 2 * z2))"
      by algebra
    also have "sqrt (2\<^sup>2 * ((3 - z1) * (3 + z1 + 2 * z2))) = 2 * sqrt ((3 - z1) * (3 + z1 + 2 * z2))"
      by (simp only: real_sqrt_mult) simp
    finally show ?thesis .
  qed
  have sg: "sgn a * sqrt ((3 - z1) * (3 + z1 + 2 * z2)) = s * sqrt ((3 - z1) * (3 + z1 + 2 * z2))"
  proof (cases "a = 0")
    case True
    then have "z1 = 3" by (simp add: z1_def Z1_def)
    then show ?thesis by simp
  next
    case False
    then show ?thesis by (simp add: s_def sgn_if)
  qed
  have r: "r_isco a = 3 + z2 - s * (c * D) / 2"
    unfolding r_isco_def cD using sg by (simp add: z1_def z2_def)
  have y2: "2 * y = D - s * c" by (simp add: y_def)
  have "4 * y\<^sup>2 = (2 * y)\<^sup>2" by simp
  also have "\<dots> = D\<^sup>2 - 2 * (s * (c * D)) + (s * s) * c\<^sup>2"
    unfolding y2 by algebra
  finally have "4 * y\<^sup>2 = D\<^sup>2 - 2 * (s * (c * D)) + (s * s) * c\<^sup>2" .
  then have ysq: "y\<^sup>2 = r_isco a" unfolding r D2 c2 s2 by simp
  have "c\<^sup>2 < D\<^sup>2" unfolding c2 D2 using z1 z2 by simp
  then have cD_less: "c < D" using D0 by (rule power2_less_imp_less)
  have y0: "0 < y" unfolding y_def using cD_less c0 by (simp add: s_def)
  have "(2 * y + s * c)\<^sup>2 = D\<^sup>2" unfolding y2 by simp
  then have "4 * y\<^sup>2 + 4 * (s * c * y) + (s * s) * c\<^sup>2 = D\<^sup>2" by algebra
  then have quad: "y\<^sup>2 - z1 = z2 - s * c * y" unfolding s2 c2 D2 by simp
  have "(y\<^sup>2 - z1)\<^sup>2 = z2\<^sup>2 - 2 * (s * (c * z2)) * y + (s * s) * c\<^sup>2 * y\<^sup>2"
    unfolding quad by algebra
  also have "\<dots> = 3 * a\<^sup>2 + z1\<^sup>2 - 8 * a * y + 2 * (3 - z1) * y\<^sup>2"
    unfolding cz s2 c2 z2sq by simp
  finally have "quartic a y = 0" unfolding quartic_def by algebra
  moreover have "1 \<le> y"
  proof -
    have "1 \<le> r_isco a"
    proof (cases "0 \<le> a")
      case True
      have "0 \<le> (3 - z1) * (3 + z1 + 2 * z2)" using z1 z2 by simp
      then have "(c * D / 2)\<^sup>2 = (3 - z1) * (3 + z1 + 2 * z2)"
        unfolding cD by simp
      also have "\<dots> \<le> (2 + z2)\<^sup>2"
      proof -
        have "(1 + z2)\<^sup>2 \<le> (z1 + z2)\<^sup>2" using z1 z2 by (intro power_mono) simp_all
        moreover have "2 * z2 + 5 \<le> (1 + z2)\<^sup>2"
        proof -
          have "2\<^sup>2 \<le> z2\<^sup>2" using z2 by (intro power_mono) simp_all
          then show ?thesis by (simp add: power2_eq_square algebra_simps)
        qed
        moreover have "(2 + z2)\<^sup>2 - (3 - z1) * (3 + z1 + 2 * z2) = (z1 + z2)\<^sup>2 - (2 * z2 + 5)"
          by algebra
        ultimately show ?thesis by linarith
      qed
      finally have "(c * D / 2)\<^sup>2 \<le> (2 + z2)\<^sup>2" .
      moreover have "0 \<le> 2 + z2" using z2 by simp
      ultimately have "c * D / 2 \<le> 2 + z2" by (rule power2_le_imp_le)
      then show ?thesis unfolding r using True by (simp add: s_def)
    next
      case False
      have "0 \<le> c * D" using c0 D0 by simp
      then show ?thesis unfolding r using False z2 by (simp add: s_def)
    qed
    then have "1\<^sup>2 \<le> y\<^sup>2" using ysq by simp
    moreover have "0 \<le> y" using y0 by simp
    ultimately show ?thesis by (rule power2_le_imp_le)
  qed
  ultimately show ?thesis using ysq by blast
qed

subsection \<open>The three roots and the two polynomials\<close>

lemma root_ranges:
  assumes "\<bar>a\<bar> < 1"
  shows "1 < root1 a" and "- 1 < root2 a" and "root2 a < 1" and "root3 a < - 1"
proof -
  define t where "t = arccos a / 3"
  have "0 < arccos a \<and> arccos a < pi" using assms by (intro arccos_lt_bounded) (simp_all add: abs_less_iff)
  then have t: "0 < t" "t < pi / 3" by (simp_all add: t_def)
  have "cos (pi / 3) < cos (pi / 3 - t)" using t by (intro cos_monotone_0_pi) simp_all
  moreover have "cos (t - pi / 3) = cos (pi / 3 - t)" using cos_minus [of "t - pi / 3"] by simp
  ultimately show "1 < root1 a" by (simp add: root1_def t_def [symmetric] cos_60)
  have "cos (2 * pi / 3) < cos (t + pi / 3)" using t by (intro cos_monotone_0_pi) simp_all
  then show "- 1 < root2 a" by (simp add: root2_def t_def [symmetric] cos_120)
  have "cos (t + pi / 3) < cos (pi / 3)" using t by (intro cos_monotone_0_pi) simp_all
  then show "root2 a < 1" by (simp add: root2_def t_def [symmetric] cos_60)
  have "cos (pi / 3) < cos t" using t by (intro cos_monotone_0_pi) simp_all
  then show "root3 a < - 1" by (simp add: root3_def t_def [symmetric] cos_60)
qed

lemma cubic_strict_mono:
  assumes "1 \<le> s" "s < t"
  shows "cubic a s < cubic a t"
proof -
  have d: "cubic a t - cubic a s = (t - s) * (t\<^sup>2 + t * s + s\<^sup>2 - 3)"
    unfolding cubic_def by algebra
  have 1: "1 < t\<^sup>2" using assms by (intro one_less_power) simp_all
  have 2: "1 * 1 \<le> t * s" using assms by (intro mult_mono) simp_all
  have 3: "1 \<le> s\<^sup>2" using assms by (intro one_le_power) simp
  have "0 < t\<^sup>2 + t * s + s\<^sup>2 - 3" using 1 2 3 by linarith
  moreover have "0 < t - s" using assms by simp
  ultimately have "0 < cubic a t - cubic a s" unfolding d by (rule mult_pos_pos [rotated])
  then show ?thesis by simp
qed

lemma quartic_cubic: "t * cubic a t = quartic a t + 3 * (t - a)\<^sup>2"
  unfolding cubic_def quartic_def by algebra

subsection \<open>The slope of the bracket\<close>

lemma vieta:
  assumes r: "cubic a x1 = 0" "cubic a x2 = 0" "cubic a x3 = 0"
    and d: "x1 \<noteq> x2" "x1 \<noteq> x3" "x2 \<noteq> x3"
  shows "x1 + x2 + x3 = 0" and "cubic a t = (t - x1) * (t - x2) * (t - x3)"
proof -
  have "(x1 - x2) * (x1\<^sup>2 + x1 * x2 + x2\<^sup>2 - 3) = cubic a x1 - cubic a x2"
    unfolding cubic_def by algebra
  then have e12: "x1\<^sup>2 + x1 * x2 + x2\<^sup>2 - 3 = 0" using r d by simp
  have "(x1 - x3) * (x1\<^sup>2 + x1 * x3 + x3\<^sup>2 - 3) = cubic a x1 - cubic a x3"
    unfolding cubic_def by algebra
  then have e13: "x1\<^sup>2 + x1 * x3 + x3\<^sup>2 - 3 = 0" using r d by simp
  have "(x2 - x3) * (x1 + x2 + x3) = (x1\<^sup>2 + x1 * x2 + x2\<^sup>2 - 3) - (x1\<^sup>2 + x1 * x3 + x3\<^sup>2 - 3)"
    by algebra
  then have "(x2 - x3) * (x1 + x2 + x3) = 0" unfolding e12 e13 by simp
  then show s1: "x1 + x2 + x3 = 0" using d by simp
  then have x3: "x3 = - (x1 + x2)" by simp
  have s2: "x1 * x2 + x1 * x3 + x2 * x3 = - 3"
  proof -
    have "x1 * x2 + x1 * x3 + x2 * x3 = - (x1\<^sup>2 + x1 * x2 + x2\<^sup>2 - 3) - 3" unfolding x3 by algebra
    then show ?thesis unfolding e12 by simp
  qed
  have s3: "x1 * x2 * x3 = - 2 * a"
  proof -
    have "x1 * x2 * x3 = cubic a x3 - 2 * a + x3 * (x1 * x2 + x1 * x3 + x2 * x3 + 3) - x3\<^sup>2 * (x1 + x2 + x3)"
      unfolding cubic_def by algebra
    then show ?thesis unfolding s1 s2 r by simp
  qed
  have "(t - x1) * (t - x2) * (t - x3) =
      t ^ 3 - (x1 + x2 + x3) * t\<^sup>2 + (x1 * x2 + x1 * x3 + x2 * x3) * t - x1 * x2 * x3"
    by algebra
  then show "cubic a t = (t - x1) * (t - x2) * (t - x3)"
    unfolding s1 s2 s3 cubic_def by simp
qed

lemma coefficient:
  assumes "cubic a xi = 0"
  shows "3 * (xi - a)\<^sup>2 / (xi * (xi - xj) * (xi - xk)) = weight_poly a xi / ((xi - xj) * (xi - xk))"
proof (cases "xi = 0")
  case True
  then have "a = 0" using assms by (simp add: cubic_def)
  then show ?thesis using True by (simp add: weight_poly_def)
next
  case False
  have "2 * (xi * weight_poly a xi) = 2 * (3 * (xi - a)\<^sup>2) - 3 * a * cubic a xi"
    unfolding weight_poly_def cubic_def by algebra
  then have "xi * weight_poly a xi = 3 * (xi - a)\<^sup>2" using assms by simp
  then have "3 * (xi - a)\<^sup>2 / (xi * (xi - xj) * (xi - xk)) = xi * weight_poly a xi / (xi * ((xi - xj) * (xi - xk)))"
    by (simp add: mult.assoc)
  also have "\<dots> = weight_poly a xi / ((xi - xj) * (xi - xk))" using False by simp
  finally show ?thesis .
qed

lemma frac_rewrite: "B \<noteq> 0 \<Longrightarrow> V \<noteq> 0 \<Longrightarrow> A * V = C * B \<Longrightarrow> A / B = C / (V::real)"
  by (simp add: frac_eq_eq)

lemma lagrange:
  assumes d: "x1 \<noteq> x2" "x1 \<noteq> x3" "x2 \<noteq> x3"
  shows "weight_poly a x1 / ((x1 - x2) * (x1 - x3)) * ((t - x2) * (t - x3))
       + weight_poly a x2 / ((x2 - x3) * (x2 - x1)) * ((t - x3) * (t - x1))
       + weight_poly a x3 / ((x3 - x1) * (x3 - x2)) * ((t - x1) * (t - x2)) = weight_poly a t"
proof -
  define V where "V = (x1 - x2) * (x1 - x3) * (x2 - x3)"
  have V: "V \<noteq> 0" using d by (simp add: V_def)
  have 1: "weight_poly a x1 / ((x1 - x2) * (x1 - x3)) = weight_poly a x1 * (x2 - x3) / V"
  proof (rule frac_rewrite)
    show "(x1 - x2) * (x1 - x3) \<noteq> 0" using d by simp
    show "weight_poly a x1 * V = weight_poly a x1 * (x2 - x3) * ((x1 - x2) * (x1 - x3))" unfolding V_def by algebra
  qed (rule V)
  have 2: "weight_poly a x2 / ((x2 - x3) * (x2 - x1)) = - weight_poly a x2 * (x1 - x3) / V"
  proof (rule frac_rewrite)
    show "(x2 - x3) * (x2 - x1) \<noteq> 0" using d by simp
    show "weight_poly a x2 * V = - weight_poly a x2 * (x1 - x3) * ((x2 - x3) * (x2 - x1))" unfolding V_def by algebra
  qed (rule V)
  have 3: "weight_poly a x3 / ((x3 - x1) * (x3 - x2)) = weight_poly a x3 * (x1 - x2) / V"
  proof (rule frac_rewrite)
    show "(x3 - x1) * (x3 - x2) \<noteq> 0" using d by simp
    show "weight_poly a x3 * V = weight_poly a x3 * (x1 - x2) * ((x3 - x1) * (x3 - x2))" unfolding V_def by algebra
  qed (rule V)
  have "weight_poly a x1 * (x2 - x3) * ((t - x2) * (t - x3)) - weight_poly a x2 * (x1 - x3) * ((t - x3) * (t - x1))
      + weight_poly a x3 * (x1 - x2) * ((t - x1) * (t - x2)) = weight_poly a t * V"
    unfolding weight_poly_def V_def by algebra
  then have "(weight_poly a x1 * (x2 - x3) * ((t - x2) * (t - x3)) - weight_poly a x2 * (x1 - x3) * ((t - x3) * (t - x1))
      + weight_poly a x3 * (x1 - x2) * ((t - x1) * (t - x2))) / V = weight_poly a t"
    using V by simp
  then show ?thesis unfolding 1 2 3 by (simp add: add_divide_distrib diff_divide_distrib)
qed

lemma ln_ratio_deriv:
  assumes "xi < t" "xi < x0"
  shows "((\<lambda>s. ln ((s - xi) / (x0 - xi))) has_real_derivative 1 / (t - xi)) (at t)"
proof -
  have "0 < (t - xi) / (x0 - xi)" using assms by simp
  then have "((\<lambda>s. ln ((s - xi) / (x0 - xi))) has_real_derivative
      (1 / (x0 - xi)) * (1 / ((t - xi) / (x0 - xi)))) (at t)"
    by (auto intro!: derivative_eq_intros)
  moreover have "(1 / (x0 - xi)) * (1 / ((t - xi) / (x0 - xi))) = 1 / (t - xi)"
    using assms by simp
  ultimately show ?thesis by (simp only:)
qed

lemma bracket_deriv:
  assumes "0 < t" "0 < x0" "root1 a < t" "root1 a < x0" "root2 a < t" "root2 a < x0"
    "root3 a < t" "root3 a < x0"
  shows "(bracket a x0 has_real_derivative
           (1 - 1.5 * a * (1 / t)
              - 3 * (root1 a - a)\<^sup>2 / (root1 a * (root1 a - root2 a) * (root1 a - root3 a)) * (1 / (t - root1 a))
              - 3 * (root2 a - a)\<^sup>2 / (root2 a * (root2 a - root3 a) * (root2 a - root1 a)) * (1 / (t - root2 a))
              - 3 * (root3 a - a)\<^sup>2 / (root3 a * (root3 a - root1 a) * (root3 a - root2 a)) * (1 / (t - root3 a))))
         (at t)"
proof -
  have 0: "((\<lambda>s. ln (s / x0)) has_real_derivative 1 / t) (at t)"
    using ln_ratio_deriv [of 0 t x0] assms by simp
  have A: "((\<lambda>s. s - x0) has_real_derivative 1) (at t)"
    by (auto intro!: derivative_eq_intros)
  have "bracket a x0 = (\<lambda>t. t - x0 - 1.5 * a * ln (t / x0)
       - 3 * (root1 a - a)\<^sup>2 / (root1 a * (root1 a - root2 a) * (root1 a - root3 a)) * ln ((t - root1 a) / (x0 - root1 a))
       - 3 * (root2 a - a)\<^sup>2 / (root2 a * (root2 a - root3 a) * (root2 a - root1 a)) * ln ((t - root2 a) / (x0 - root2 a))
       - 3 * (root3 a - a)\<^sup>2 / (root3 a * (root3 a - root1 a) * (root3 a - root2 a)) * ln ((t - root3 a) / (x0 - root3 a)))"
    by (rule ext) (simp add: bracket_def log_term_def)
  then show ?thesis
    by (simp only:)
      (rule DERIV_diff [OF DERIV_diff [OF DERIV_diff [OF DERIV_diff [OF A DERIV_cmult [OF 0]]
         DERIV_cmult [OF ln_ratio_deriv [OF assms(3,4)]]]
         DERIV_cmult [OF ln_ratio_deriv [OF assms(5,6)]]]
         DERIV_cmult [OF ln_ratio_deriv [OF assms(7,8)]]])
qed

lemma cubic_roots:
  assumes "\<bar>a\<bar> \<le> 1"
  shows "cubic a (root1 a) = 0" "cubic a (root2 a) = 0" "cubic a (root3 a) = 0"
  using roots_of_cubic [OF assms] by (simp_all add: cubic_def)

lemma slope_algebra:
  fixes t P Q Rt a :: real
  assumes "t \<noteq> 0" "P \<noteq> 0" "t * P - (3 / 2) * a * P - t * Rt = Q"
  shows "1 - 1.5 * a * (1 / t) - Rt / P = Q / (t * P)"
  using assms by (simp add: field_simps)

lemma bracket_slope:
  assumes a: "\<bar>a\<bar> < 1" and t: "root1 a < t"
  shows "1 - 1.5 * a * (1 / t)
           - 3 * (root1 a - a)\<^sup>2 / (root1 a * (root1 a - root2 a) * (root1 a - root3 a)) * (1 / (t - root1 a))
           - 3 * (root2 a - a)\<^sup>2 / (root2 a * (root2 a - root3 a) * (root2 a - root1 a)) * (1 / (t - root2 a))
           - 3 * (root3 a - a)\<^sup>2 / (root3 a * (root3 a - root1 a) * (root3 a - root2 a)) * (1 / (t - root3 a))
         = quartic a t / (t * cubic a t)"
proof -
  define x1 where "x1 = root1 a"
  define x2 where "x2 = root2 a"
  define x3 where "x3 = root3 a"
  have a': "\<bar>a\<bar> \<le> 1" using a by simp
  have rt: "cubic a x1 = 0" "cubic a x2 = 0" "cubic a x3 = 0"
    using cubic_roots [OF a'] by (simp_all add: x1_def x2_def x3_def)
  have rg: "1 < x1" "- 1 < x2" "x2 < 1" "x3 < - 1"
    using root_ranges [OF a] by (simp_all add: x1_def x2_def x3_def)
  then have d: "x1 \<noteq> x2" "x1 \<noteq> x3" "x2 \<noteq> x3" by simp_all
  have t': "x1 < t" using t by (simp add: x1_def)
  have pos: "0 < t" "0 < t - x1" "0 < t - x2" "0 < t - x3" using t' rg by simp_all
  have fac: "cubic a t = (t - x1) * (t - x2) * (t - x3)" using vieta(2) [OF rt d] .
  have P: "0 < cubic a t" unfolding fac using pos by simp
  have c1: "3 * (x1 - a)\<^sup>2 / (x1 * (x1 - x2) * (x1 - x3)) * (1 / (t - x1))
      = weight_poly a x1 / ((x1 - x2) * (x1 - x3)) * ((t - x2) * (t - x3)) / cubic a t"
    unfolding coefficient [OF rt(1)] fac using pos by simp
  have c2: "3 * (x2 - a)\<^sup>2 / (x2 * (x2 - x3) * (x2 - x1)) * (1 / (t - x2))
      = weight_poly a x2 / ((x2 - x3) * (x2 - x1)) * ((t - x3) * (t - x1)) / cubic a t"
    unfolding coefficient [OF rt(2)] fac using pos by simp
  have c3: "3 * (x3 - a)\<^sup>2 / (x3 * (x3 - x1) * (x3 - x2)) * (1 / (t - x3))
      = weight_poly a x3 / ((x3 - x1) * (x3 - x2)) * ((t - x1) * (t - x2)) / cubic a t"
    unfolding coefficient [OF rt(3)] fac using pos by simp
  have sum: "weight_poly a x1 / ((x1 - x2) * (x1 - x3)) * ((t - x2) * (t - x3)) / cubic a t
      + weight_poly a x2 / ((x2 - x3) * (x2 - x1)) * ((t - x3) * (t - x1)) / cubic a t
      + weight_poly a x3 / ((x3 - x1) * (x3 - x2)) * ((t - x1) * (t - x2)) / cubic a t = weight_poly a t / cubic a t"
    unfolding add_divide_distrib [symmetric] lagrange [OF d] ..
  have num: "t * cubic a t - (3 / 2) * a * cubic a t - t * weight_poly a t = quartic a t"
    unfolding cubic_def weight_poly_def quartic_def by algebra
  have "1 - 1.5 * a * (1 / t) - weight_poly a t / cubic a t = quartic a t / (t * cubic a t)"
    using pos(1) P num by (intro slope_algebra) simp_all
  then show ?thesis
    unfolding x1_def [symmetric] x2_def [symmetric] x3_def [symmetric] c1 c2 c3 sum [symmetric]
    by (simp only: diff_diff_eq add.assoc)
qed

subsection \<open>The bracket increases above the edge\<close>

lemma quartic_deriv: "(quartic a has_real_derivative 4 * cubic a u) (at u)"
proof -
  have "quartic a = (\<lambda>t. t ^ 4 - 6 * t\<^sup>2 + 8 * a * t - 3 * a\<^sup>2)"
    by (rule ext) (simp add: quartic_def)
  moreover have "((\<lambda>t. t ^ 4 - 6 * t\<^sup>2 + 8 * a * t - 3 * a\<^sup>2) has_real_derivative 4 * cubic a u) (at u)"
    unfolding cubic_def by (auto intro!: derivative_eq_intros simp: power3_eq_cube algebra_simps)
  ultimately show ?thesis by (simp only:)
qed

lemma above_largest_root:
  assumes a: "\<bar>a\<bar> < 1" and y: "1 \<le> y" "quartic a y = 0"
  shows "root1 a \<le> y"
proof (rule ccontr)
  assume "\<not> root1 a \<le> y"
  then have "y < root1 a" by simp
  then have "cubic a y < cubic a (root1 a)" using y(1) by (intro cubic_strict_mono)
  then have neg: "cubic a y < 0" using cubic_roots(1) [of a] a by simp
  have "y * cubic a y = 3 * (y - a)\<^sup>2" using quartic_cubic [of y a] y(2) by simp
  then have "0 \<le> y * cubic a y" by simp
  then show False using neg y(1) by (simp add: zero_le_mult_iff)
qed

lemma cubic_pos:
  assumes a: "\<bar>a\<bar> < 1" and t: "root1 a < t"
  shows "0 < cubic a t"
proof -
  have "1 \<le> root1 a" using root_ranges(1) [OF a] by simp
  then have "cubic a (root1 a) < cubic a t" using t by (intro cubic_strict_mono)
  then show ?thesis using cubic_roots(1) [of a] a by simp
qed

lemma quartic_nonneg:
  assumes a: "\<bar>a\<bar> < 1" and y: "1 \<le> y" "quartic a y = 0" and t: "y \<le> t"
  shows "0 \<le> quartic a t"
proof -
  have r: "root1 a \<le> y" using a y by (rule above_largest_root)
  have "quartic a y \<le> quartic a t"
  proof (rule DERIV_nonneg_imp_nondecreasing [OF t])
    fix u assume u: "y \<le> u" "u \<le> t"
    have "0 \<le> cubic a u"
    proof (cases "root1 a = u")
      case True
      then show ?thesis using cubic_roots(1) [of a] a by auto
    next
      case False
      then have "root1 a < u" using r u by simp
      then show ?thesis using cubic_pos [OF a] by (simp add: less_imp_le)
    qed
    then have "0 \<le> 4 * cubic a u" by simp
    then show "\<exists>d. (quartic a has_real_derivative d) (at u) \<and> 0 \<le> d"
      using quartic_deriv by blast
  qed
  then show ?thesis using y(2) by simp
qed

lemma quartic_pos:
  assumes a: "\<bar>a\<bar> < 1" and y: "1 \<le> y" "quartic a y = 0" and t: "y < t"
  shows "0 < quartic a t"
proof -
  define m where "m = (y + t) / 2"
  have m: "y < m" "m < t" using t by (simp_all add: m_def)
  have r: "root1 a \<le> y" using a y by (rule above_largest_root)
  have "0 \<le> quartic a m" using a y m(1) by (intro quartic_nonneg [of a y]) simp_all
  moreover have "quartic a m < quartic a t"
  proof (rule DERIV_pos_imp_increasing [OF m(2)])
    fix u assume u: "m \<le> u" "u \<le> t"
    have "root1 a < u" using r m(1) u by simp
    then have "0 < 4 * cubic a u" using cubic_pos [OF a] by simp
    then show "\<exists>d. (quartic a has_real_derivative d) (at u) \<and> 0 < d"
      using quartic_deriv by blast
  qed
  ultimately show ?thesis by simp
qed

lemma bracket_pos:
  assumes a: "\<bar>a\<bar> < 1" and y: "1 \<le> y" "quartic a y = 0" and x0: "y < x0" and x: "x0 < x"
  shows "0 < bracket a x0 x"
proof -
  have r: "root1 a \<le> y" using a y by (rule above_largest_root)
  have rg: "1 < root1 a" "root2 a < 1" "root3 a < - 1" using root_ranges [OF a] by simp_all
  have start: "bracket a x0 x0 = 0"
    using r x0 rg by (simp add: bracket_def log_term_def)
  have "bracket a x0 x0 < bracket a x0 x"
  proof (rule DERIV_pos_imp_increasing [OF x])
    fix u assume u: "x0 \<le> u" "u \<le> x"
    have u1: "root1 a < u" using r x0 u by simp
    have "(bracket a x0 has_real_derivative quartic a u / (u * cubic a u)) (at u)"
      unfolding bracket_slope [OF a u1, symmetric]
      using r x0 u rg by (intro bracket_deriv) simp_all
    moreover have "0 < quartic a u / (u * cubic a u)"
    proof -
      have "0 < quartic a u" using a y x0 u by (intro quartic_pos [of a y]) simp_all
      moreover have "0 < u * cubic a u" using cubic_pos [OF a u1] u1 rg by simp
      ultimately show ?thesis by simp
    qed
    ultimately show "\<exists>d. (bracket a x0 has_real_derivative d) (at u) \<and> 0 < d" by blast
  qed
  then show ?thesis unfolding start .
qed

subsection \<open>The stored edge lies above the marginally stable orbit\<close>

lemma round_half_even_close: "\<bar>of_int (round_half_even v) - v\<bar> \<le> 1 / 2"
proof -
  have "of_int \<lfloor>v\<rfloor> \<le> v" "v < of_int \<lfloor>v\<rfloor> + 1" by linarith+
  then show ?thesis by (auto simp add: round_half_even_def Let_def)
qed

lemma to_float_error:
  assumes "x \<noteq> 0"
  shows "\<bar>to_float x - x\<bar> \<le> 2 powi (float_exponent x - 24)"
proof -
  define q :: real where "q = 2 powi (float_exponent x - 23)"
  have q: "0 < q" by (simp add: q_def)
  have "to_float x - x = (of_int (round_half_even (x / q)) - x / q) * q"
    using assms q by (simp add: to_float_def Let_def q_def algebra_simps)
  then have "\<bar>to_float x - x\<bar> = \<bar>of_int (round_half_even (x / q)) - x / q\<bar> * q"
    using q by (simp add: abs_mult)
  also have "\<dots> \<le> 1 / 2 * q"
    using q round_half_even_close [of "x / q"] by (intro mult_right_mono) simp_all
  also have "\<dots> = 2 powi (float_exponent x - 24)"
    by (simp add: q_def power_int_diff)
  finally show ?thesis .
qed

lemma float_exponent_small:
  assumes "0 < x" "x < 32"
  shows "float_exponent x \<le> 4"
proof -
  have "log 2 x < log 2 32" using assms by simp
  moreover have "log 2 32 = 5" using log_pow_cancel [of 2 5] by simp
  ultimately have "log 2 x < 5" by simp
  then have "\<lfloor>log 2 x\<rfloor> < 5" by (simp add: floor_less_iff)
  then show ?thesis using assms by (simp add: float_exponent_def)
qed

lemma rms_above_isco:
  assumes "1 \<le> rho" "rho < 16"
  shows "rho < to_float (rho + 1 / 1000)"
proof -
  define z where "z = rho + 1 / 1000"
  have z: "0 < z" "z < 32" using assms by (simp_all add: z_def)
  have "\<bar>to_float z - z\<bar> \<le> 2 powi (float_exponent z - 24)" using z by (intro to_float_error) simp
  also have "\<dots> \<le> 2 powi (- 20)"
    using float_exponent_small [OF z] by (intro power_int_increasing) simp_all
  also have "\<dots> < 1 / 1000" by (simp add: power_int_minus)
  finally have "z - 1 / 1000 < to_float z" by linarith
  then show ?thesis by (simp add: z_def)
qed

lemma quartic_root_bound:
  assumes a: "\<bar>a\<bar> \<le> 1" and y: "1 \<le> y" "quartic a y = 0"
  shows "y < 4"
proof (rule ccontr)
  assume "\<not> y < 4"
  then have y4: "4 \<le> y" by simp
  have a1: "- 1 \<le> a" "a \<le> 1" using a by (simp_all add: abs_le_iff)
  have "16 * y\<^sup>2 \<le> y\<^sup>2 * y\<^sup>2"
  proof -
    have "4\<^sup>2 \<le> y\<^sup>2" using y4 by (intro power_mono) simp_all
    then show ?thesis by (intro mult_right_mono) simp_all
  qed
  moreover have "y \<le> y\<^sup>2" using y(1) by (simp add: power2_eq_square)
  moreover have "- y \<le> a * y" using a1 y(1) by (metis mult_minus_left mult_right_mono mult_1 order_trans zero_le_one)
  moreover have "a * y \<le> y" using a1 y(1) by (metis mult_right_mono mult_1 order_trans zero_le_one)
  moreover have "0 \<le> a\<^sup>2" "a\<^sup>2 \<le> 1" using a by (simp_all add: abs_square_le_1)
  moreover have "y\<^sup>2 * y\<^sup>2 - 6 * y\<^sup>2 + 8 * (a * y) - 3 * a\<^sup>2 = 0"
    using y(2) unfolding quartic_def by (simp add: power4_eq_xxxx power2_eq_square algebra_simps)
  moreover have "16 \<le> y\<^sup>2" using y4 power_mono [of 4 y 2] by simp
  ultimately show False by linarith
qed

subsection \<open>The flux\<close>

lemma F_hat_bracket:
  "F_hat a r_ms r =
     1 / (4 * pi * r) * (1.5 / ((sqrt r)\<^sup>2 * cubic a (sqrt r))) * bracket a (sqrt r_ms) (sqrt r)"
  by (simp add: F_hat_def bracket_def cubic_def Let_def)

lemma stored_edge:
  assumes a: "\<bar>a\<bar> < 1" and edge: "r_ms = to_float (r_isco a + 1 / 1000)"
  shows "\<exists>y. 1 \<le> y \<and> quartic a y = 0 \<and> y < sqrt r_ms"
proof -
  have a': "\<bar>a\<bar> \<le> 1" using a by simp
  obtain y where y: "1 \<le> y" "y\<^sup>2 = r_isco a" "quartic a y = 0"
    using isco_root [OF a'] by blast
  have y4: "y < 4" using a' y(1,3) by (rule quartic_root_bound)
  have "y\<^sup>2 < 4\<^sup>2" using y(1) y4 by (intro power_strict_mono) simp_all
  then have rho: "1 \<le> r_isco a" "r_isco a < 16"
    using y(1) one_le_power [of y 2] by (simp_all add: y(2) [symmetric])
  have above: "y\<^sup>2 < r_ms" unfolding edge y(2) using rho by (rule rms_above_isco)
  have "sqrt (y\<^sup>2) < sqrt r_ms" using above by (simp only: real_sqrt_less_iff)
  moreover have "sqrt (y\<^sup>2) = y" using y(1) by simp
  ultimately have "y < sqrt r_ms" by simp
  then show ?thesis using y(1,3) by blast
qed

lemma edge_above_roots:
  assumes a: "\<bar>a\<bar> < 1" and edge: "r_ms = to_float (r_isco a + 1 / 1000)"
  shows "1 < sqrt r_ms" and "root1 a < sqrt r_ms" and "root2 a < sqrt r_ms" and "root3 a < sqrt r_ms"
    and "1 < r_ms"
proof -
  obtain y where y: "1 \<le> y" "quartic a y = 0" "y < sqrt r_ms"
    using stored_edge [OF a edge] by blast
  have r: "root1 a \<le> y" using a y(1,2) by (rule above_largest_root)
  have rg: "root2 a < 1" "root3 a < - 1" using root_ranges [OF a] by simp_all
  show x0: "1 < sqrt r_ms" using y by linarith
  show "root1 a < sqrt r_ms" using r y by linarith
  show "root2 a < sqrt r_ms" using rg x0 by linarith
  show "root3 a < sqrt r_ms" using rg x0 by linarith
  show "1 < r_ms" using x0 by (simp only: real_sqrt_gt_1_iff)
qed

lemma F_hat_pos:
  assumes a: "\<bar>a\<bar> < 1" and edge: "r_ms = to_float (r_isco a + 1 / 1000)" and r: "r_ms < r"
  shows "0 < F_hat a r_ms r"
proof -
  obtain y where y: "1 \<le> y" "quartic a y = 0" "y < sqrt r_ms"
    using stored_edge [OF a edge] by blast
  have x: "sqrt r_ms < sqrt r" using r by simp
  have pos: "0 < r" using edge_above_roots(5) [OF a edge] r by simp
  have b: "0 < bracket a (sqrt r_ms) (sqrt r)" using a y x by (rule bracket_pos)
  have "root1 a < sqrt r" using edge_above_roots(2) [OF a edge] x by linarith
  then have c: "0 < cubic a (sqrt r)" using a by (intro cubic_pos)
  have "0 < 1 / (4 * pi * r) * (1.5 / ((sqrt r)\<^sup>2 * cubic a (sqrt r)))"
    using pos c by simp
  then show ?thesis unfolding F_hat_bracket using b by (rule mult_pos_pos)
qed

text \<open>
  Read over the reals, the expression that \<^verbatim>\<open>disk_nt_flux\<close> evaluates is positive above
  the stored edge when the accretion rate is: a state as \<^verbatim>\<open>disk_nt_setup\<close> leaves it has
  its edge above the marginally stable orbit, where the bracket \<open>f0 - f1 - f2 - f3\<close>
  starts at \<open>0\<close> and has the positive slope \<open>quartic / (x * cubic)\<close>. The bracket is a
  difference of nearly equal terms just above the edge; what binary64 arithmetic makes of
  it there is not represented in the embedding.
\<close>

lemma flux_exact_sign:
  assumes "\<bar>disk_nt_bh_spin st\<bar> < 1"
    and "disk_nt_disk_rms st = to_float (disk_nt_r_min st)"
    and "0 < disk_nt_bh_mass st" and "disk_nt_disk_rms st < r"
  shows "0 < disk_nt_disk_mdot st \<Longrightarrow> 0 < disk_nt_flux st r"
    and "0 \<le> disk_nt_disk_mdot st \<Longrightarrow> 0 \<le> disk_nt_flux st r"
proof -
  have F: "0 < F_hat (disk_nt_bh_spin st) (disk_nt_disk_rms st) r"
    using assms(1) assms(2) [unfolded r_min_isco] assms(4) by (rule F_hat_pos)
  show "0 < disk_nt_flux st r" if "0 < disk_nt_disk_mdot st"
  proof -
    have "0 < disk_nt_disk_mdot st / disk_nt_bh_mass st" using assms(3) that by simp
    then have "0 < 91721376255 * 10 ^ 18 * (disk_nt_disk_mdot st / disk_nt_bh_mass st)" by simp
    then show ?thesis unfolding flux_outside [OF assms(4)] using F by (rule mult_pos_pos)
  qed
  show "0 \<le> disk_nt_flux st r" if "0 \<le> disk_nt_disk_mdot st"
  proof -
    have "0 \<le> disk_nt_disk_mdot st / disk_nt_bh_mass st" using assms(3) that by simp
    then have "0 \<le> 91721376255 * 10 ^ 18 * (disk_nt_disk_mdot st / disk_nt_bh_mass st)" by simp
    then show ?thesis unfolding flux_outside [OF assms(4)] using F
      by (intro mult_nonneg_nonneg) simp_all
  qed
qed

lemma S1_flux_pos:
  assumes "12585009 / 2097152 < r"
  shows "0 < disk_nt_flux scenario_S1 r"
  using assms flux_exact_sign(1) [of scenario_S1 r]
  by (simp add: scenario_S1_state r_min_isco r_isco_0 to_float_6001)

section \<open>Angular momentum and the values inside the edge\<close>

lemma powr_three_halves: "0 \<le> r \<Longrightarrow> r powr (3 / 2) = sqrt r * r"
proof -
  assume r: "0 \<le> r"
  have "r powr (3 / 2) = r powr (1 / 2 + 1)" by simp
  also have "\<dots> = r powr (1 / 2) * r powr 1" by (rule powr_add)
  also have "\<dots> = sqrt r * r" using r by (simp add: powr_half_sqrt)
  finally show ?thesis .
qed

lemma ell_at_max:
  assumes "0 \<le> disk_nt_disk_rms st"
  shows "disk_nt_ell st r = ell_spec (disk_nt_bh_spin st) (max r (disk_nt_disk_rms st))"
proof -
  have "0 \<le> max r (disk_nt_disk_rms st)" using assms by simp
  then show ?thesis
    by (simp add: disk_nt_ell_def ell_spec_def Let_def powr_three_halves power2_eq_square max.commute)
qed

text \<open>
  C6: for every radius \<open>r\<close>, \<^verbatim>\<open>disk_nt_ell\<close> is the value of
  \<open>(r'\<^sup>2 - 2 a sqrt r' + a\<^sup>2) / (r' powr (3/2) - 2 sqrt r' + a)\<close> at \<open>r' = max r r_ms\<close>
  (the stored \<open>r_ms\<close> is not negative).
\<close>

theorem ell_formula:
  assumes "0 \<le> disk_nt_disk_rms st"
  shows "disk_nt_ell st r = ell_spec (disk_nt_bh_spin st) (max r (disk_nt_disk_rms st))"
  using assms by (rule ell_at_max)

theorem ell_formula_witness:
  "0 \<le> disk_nt_disk_rms scenario_S1 \<and> disk_nt_ell scenario_S1 10 = ell_spec 0 10 \<and>
   disk_nt_ell scenario_S1 5 = ell_spec 0 (12585009 / 2097152)"
  using ell_formula [of scenario_S1 10] ell_formula [of scenario_S1 5]
  by (simp add: scenario_S1_state)

lemma sigma_inside: "r < disk_nt_disk_rms st \<Longrightarrow> disk_nt_sigma E st r = 0"
  by (simp add: disk_nt_sigma_def)

text \<open>
  At \<open>r = r_ms\<close> the guard of \<^verbatim>\<open>disk_nt_sigma\<close> does not fire. In a state as
  \<^verbatim>\<open>disk_nt_setup\<close> leaves it for a stored spin in \<open>(-1, 1)\<close>, \<open>x0 = sqrt r_ms\<close> lies above
  \<open>1\<close> and above the three roots. There \<open>x = x0\<close>, every quotient under a logarithm is
  \<open>1\<close> with a denominator that is not \<open>0\<close>, the four terms \<open>f0 \<dots> f3\<close> are multiples
  of \<open>ln 1\<close>, so \<open>xL = 0\<close>, the transition radius is \<open>0\<close> and the outer-zone formula,
  which has the factor \<open>xL powr (3/5)\<close>, is taken.
\<close>

lemma sigma_edge:
  assumes a: "\<bar>disk_nt_bh_spin st\<bar> < 1"
    and edge: "disk_nt_disk_rms st = to_float (disk_nt_r_min st)"
  shows "disk_nt_sigma E st (disk_nt_disk_rms st) = 0"
proof -
  have above: "1 < sqrt (disk_nt_disk_rms st)"
      "root1 (disk_nt_bh_spin st) < sqrt (disk_nt_disk_rms st)"
      "root2 (disk_nt_bh_spin st) < sqrt (disk_nt_disk_rms st)"
      "root3 (disk_nt_bh_spin st) < sqrt (disk_nt_disk_rms st)"
    using edge_above_roots [OF a edge [unfolded r_min_isco]] by simp_all
  have x0: "sqrt (disk_nt_disk_rms st) / sqrt (disk_nt_disk_rms st) = 1" using above(1) by simp
  have ln1: "ln ((sqrt (disk_nt_disk_rms st) - v) / (sqrt (disk_nt_disk_rms st) - v)) = 0"
    if "v < sqrt (disk_nt_disk_rms st)" for v using that by simp
  show ?thesis
    unfolding disk_nt_sigma_def Let_def roots_code x0
      ln1 [OF above(2)] ln1 [OF above(3)] ln1 [OF above(4)]
    by simp
qed

text \<open>
  At the stored edge the quotient of \<^verbatim>\<open>disk_nt_ell\<close> has a positive numerator,
  \<open>x0\<^sup>4 - 2 a x0 + a\<^sup>2 = (x0\<^sup>4 - x0\<^sup>2) + (x0 - a)\<^sup>2\<close>, and a positive denominator,
  \<open>x0\<^sup>3 - 2 x0 + a = cubic a x0 + (x0 - a)\<close>.
\<close>

lemma ell_edge_pos:
  assumes a: "\<bar>a\<bar> < 1" and edge: "r_ms = to_float (r_isco a + 1 / 1000)"
  shows "0 < ell_spec a r_ms"
proof -
  define x0 where "x0 = sqrt r_ms"
  have x0: "1 < x0" "root1 a < x0" and r: "1 < r_ms"
    using edge_above_roots [OF a edge] by (simp_all add: x0_def)
  have sq: "r_ms = x0\<^sup>2" using r by (simp add: x0_def)
  have a1: "a < 1" using a by simp
  have "0 < cubic a x0" using a x0(2) by (rule cubic_pos)
  then have den: "0 < x0 ^ 3 - 2 * x0 + a" using x0(1) a1 by (simp add: cubic_def)
  have "x0\<^sup>2 \<le> x0 ^ 4"
    using x0(1) power_increasing [of 2 4 x0] by simp
  moreover have "0 < (x0 - a)\<^sup>2" using x0(1) a1 by simp
  moreover have "x0 ^ 4 - 2 * a * x0 + a\<^sup>2 = (x0 ^ 4 - x0\<^sup>2) + (x0 - a)\<^sup>2" by algebra
  ultimately have num: "0 < x0 ^ 4 - 2 * a * x0 + a\<^sup>2" by linarith
  have "r_ms powr (3 / 2) = sqrt r_ms * r_ms" using r by (intro powr_three_halves) simp
  also have "\<dots> = x0 * x0\<^sup>2" using r by (simp add: x0_def)
  also have "\<dots> = x0 ^ 3" by (simp add: power3_eq_cube power2_eq_square)
  finally have "r_ms powr (3 / 2) = x0 ^ 3" .
  moreover have "r_ms\<^sup>2 = x0 ^ 4"
  proof -
    have "x0 ^ 4 = (x0\<^sup>2)\<^sup>2" by simp
    then show ?thesis unfolding sq [symmetric] by simp
  qed
  ultimately have "ell_spec a r_ms = (x0 ^ 4 - 2 * a * x0 + a\<^sup>2) / (x0 ^ 3 - 2 * x0 + a)"
    by (simp add: ell_spec_def x0_def [symmetric])
  then show ?thesis using num den by simp
qed

text \<open>
  C3, as the code has it: in a state as \<^verbatim>\<open>disk_nt_setup\<close> leaves it (the stored edge is
  the narrowed \<^verbatim>\<open>disk_nt_r_min\<close>, lemma \<open>setup_rms\<close>) with a stored spin in \<open>(-1, 1)\<close>,
  positive mass and viscosity and an accretion rate that is not negative, for every
  \<open>r \<le> r_ms\<close> the flux and the column density are \<open>0\<close>, and the angular momentum is the
  value of its formula at \<open>r_ms\<close>, which is positive.
\<close>

theorem inside_edge:
  assumes "\<bar>disk_nt_bh_spin st\<bar> < 1"
    and "disk_nt_disk_rms st = to_float (disk_nt_r_min st)"
    and "0 < disk_nt_bh_mass st" and "0 \<le> disk_nt_disk_mdot st" and "0 < disk_nt_disk_alpha st"
    and "0 < Mdot_Edd E"
    and "r \<le> disk_nt_disk_rms st"
  shows "disk_nt_flux st r = 0 \<and> disk_nt_sigma E st r = 0 \<and>
         disk_nt_ell st r = ell_spec (disk_nt_bh_spin st) (disk_nt_disk_rms st) \<and>
         0 < ell_spec (disk_nt_bh_spin st) (disk_nt_disk_rms st)"
proof (intro conjI)
  show "disk_nt_flux st r = 0" using assms(7) by (rule flux_inside)
  show "disk_nt_sigma E st r = 0"
  proof (cases "r < disk_nt_disk_rms st")
    case True
    then show ?thesis by (rule sigma_inside)
  next
    case False
    then have "r = disk_nt_disk_rms st" using assms(7) by simp
    then show ?thesis using sigma_edge [OF assms(1,2)] by simp
  qed
  have "1 < disk_nt_disk_rms st"
    using edge_above_roots(5) [OF assms(1) assms(2) [unfolded r_min_isco]] .
  moreover have "max r (disk_nt_disk_rms st) = disk_nt_disk_rms st" using assms(7) by simp
  ultimately show "disk_nt_ell st r = ell_spec (disk_nt_bh_spin st) (disk_nt_disk_rms st)"
    using ell_at_max [of st r] by simp
  show "0 < ell_spec (disk_nt_bh_spin st) (disk_nt_disk_rms st)"
    using assms(1) assms(2) [unfolded r_min_isco] by (rule ell_edge_pos)
qed

theorem inside_edge_witness:
  "\<bar>disk_nt_bh_spin scenario_S1\<bar> < 1 \<and>
   disk_nt_disk_rms scenario_S1 = to_float (disk_nt_r_min scenario_S1) \<and>
   0 < disk_nt_bh_mass scenario_S1 \<and> 0 \<le> disk_nt_disk_mdot scenario_S1 \<and>
   0 < disk_nt_disk_alpha scenario_S1 \<and> 0 < Mdot_Edd sim5_example \<and>
   5 \<le> disk_nt_disk_rms scenario_S1 \<and>
   disk_nt_flux scenario_S1 5 = 0 \<and> disk_nt_sigma sim5_example scenario_S1 5 = 0 \<and>
   disk_nt_sigma sim5_example scenario_S1 (12585009 / 2097152) = 0 \<and>
   disk_nt_ell scenario_S1 5 = ell_spec 0 (12585009 / 2097152) \<and>
   0 < ell_spec 0 (12585009 / 2097152)"
  using inside_edge [of scenario_S1 sim5_example 5]
    inside_edge [of scenario_S1 sim5_example "12585009 / 2097152"]
  by (simp add: scenario_S1_state r_min_isco r_isco_0 to_float_6001 sim5_example_def)

text \<open>
  After the setup of scenario S1 (\<open>M = 10\<close>, \<open>a = 0\<close>, \<open>mdot = 0.1\<close>, \<open>alpha = 0.1\<close>) the
  radius \<open>5\<close> lies inside the edge and the angular momentum there is not \<open>0\<close>.
\<close>

theorem ell_inside_counterexample:
  "5 \<le> disk_nt_disk_rms scenario_S1 \<and> disk_nt_ell scenario_S1 5 \<noteq> 0"
  by (simp add: scenario_S1_state disk_nt_ell_def Let_def algebra_simps)

section \<open>Luminosity\<close>

lemma disk_rmax_value: "disk_rmax = 10 ^ 5"
  by (simp only: disk_rmax_def to_float_1e5)

text \<open>
  The code's \<^verbatim>\<open>U_t\<close> is the product that the specification gives for \<open>-U_t\<close>, and the
  integrand has the factor \<^verbatim>\<open>(-U_t)\<close>: the integrand of the code is minus the element of
  the specification.
\<close>

lemma func_luminosity_sign: "func_luminosity st log_r = - dL_dlogr_spec st (exp log_r)"
  by (simp add: func_luminosity_def dL_dlogr_spec_def minus_U_t_spec_def Let_def sqr_def
      power2_eq_square)

text \<open>
  C5, as the code has it: \<^verbatim>\<open>disk_nt_lumi\<close> returns the integral, by the library's
  adaptive Simpson routine with tolerance \<open>10\<^sup>-\<^sup>5\<close>, over \<open>log r\<close> from \<open>log r_ms\<close> to
  \<open>log 10\<^sup>5\<close>, of \<open>2 pi r * 2 * (- U) * flux r * r\<close>, where \<open>U\<close> is the expression
  \<open>(g_tt + Omega g_tphi) * sqrt (- 1 / (g_tt + 2 Omega g_tphi + Omega\<^sup>2 g_phiphi))\<close> that
  the specification gives for \<open>-U_t\<close>; the integral is multiplied by \<open>(M r_g)\<^sup>2\<close> and
  divided by \<open>L_Edd M\<close>. The integrand is minus the element of the specification.
\<close>

theorem lumi_formula:
  "func_luminosity st log_r =
     2 * pi * exp log_r * 2 * (- minus_U_t_spec (disk_nt_bh_spin st) (exp log_r))
       * disk_nt_flux st (exp log_r) * exp log_r \<and>
   disk_nt_lumi E st =
     integrate_simpson E (\<lambda>log_r. - dL_dlogr_spec st (exp log_r))
         (ln (disk_nt_disk_rms st)) (ln (10 ^ 5)) (1 / 10 ^ 5)
       * (disk_nt_bh_mass st * grav_radius E)\<^sup>2 / (L_Edd E * disk_nt_bh_mass st)"
proof
  show "func_luminosity st log_r =
     2 * pi * exp log_r * 2 * (- minus_U_t_spec (disk_nt_bh_spin st) (exp log_r))
       * disk_nt_flux st (exp log_r) * exp log_r"
    by (simp add: func_luminosity_sign dL_dlogr_spec_def)
  have "func_luminosity st = (\<lambda>log_r. - dL_dlogr_spec st (exp log_r))"
    by (rule ext) (rule func_luminosity_sign)
  then show "disk_nt_lumi E st =
     integrate_simpson E (\<lambda>log_r. - dL_dlogr_spec st (exp log_r))
         (ln (disk_nt_disk_rms st)) (ln (10 ^ 5)) (1 / 10 ^ 5)
       * (disk_nt_bh_mass st * grav_radius E)\<^sup>2 / (L_Edd E * disk_nt_bh_mass st)"
    by (simp add: disk_nt_lumi_def Let_def disk_rmax_value sqr_def power2_eq_square)
qed

subsection \<open>The sign of the luminosity\<close>

text \<open>
  Without spin and for \<open>r > 3\<close> the expression that the specification gives for \<open>-U_t\<close>
  is negative: \<open>g_tt + Omega\<^sup>2 g_phiphi = - (r - 3) / r\<close> and \<open>g_tt = - (r - 2) / r\<close>.
\<close>

lemma minus_U_t_spec_neg:
  assumes "3 < r"
  shows "minus_U_t_spec 0 r < 0"
proof -
  have r: "0 < r" using assms by simp
  have "(r powr (3 / 2))\<^sup>2 = r ^ 3"
    using r by (simp add: powr_three_halves power2_eq_square power3_eq_cube)
  then have om: "(1 / (r powr (3 / 2)))\<^sup>2 * r\<^sup>2 = 1 / r"
    using r by (simp add: power_divide power2_eq_square power3_eq_cube)
  have den: "- 1 + 2 / r + (1 / (r powr (3 / 2)))\<^sup>2 * r\<^sup>2 = - (r - 3) / r"
    unfolding om using r by (simp add: field_simps)
  have "0 < - 1 / (- (r - 3) / r)" using assms r by (simp add: field_simps)
  then have s: "0 < sqrt (- 1 / (- (r - 3) / r))" by (simp only: real_sqrt_gt_0_iff)
  have g: "- 1 + 2 / r < 0" using assms by (simp add: field_simps)
  have "minus_U_t_spec 0 r = (- 1 + 2 / r) * sqrt (- 1 / (- (r - 3) / r))"
    using den by (simp add: minus_U_t_spec_def Let_def)
  then show ?thesis using s g by (simp add: mult_neg_pos)
qed

text \<open>
  The adaptive Simpson rule, whatever its depth bound, minimum depth and tolerance, is odd
  in the integrand, and positive on an integrand that is nowhere negative on the interval
  and positive at its upper end.
\<close>

lemma simpson_rule_minus: "simpson_rule (\<lambda>x. - f x) a b = - simpson_rule f a b"
proof -
  have "- f a + 4 * - f ((a + b) / 2) + - f b = - (f a + 4 * f ((a + b) / 2) + f b)" by simp
  then show ?thesis unfolding simpson_rule_def by (simp only: mult_minus_right)
qed

lemma adaptive_simpson_minus:
  "adaptive_simpson n d (\<lambda>x. - f x) a b eps = - adaptive_simpson n d f a b eps"
proof (induction n arbitrary: d a b)
  case 0
  show ?case by (simp add: simpson_rule_minus)
next
  case (Suc n)
  have "\<bar>- u - v - - w\<bar> = \<bar>u + v - w\<bar>" for u v w :: real by simp
  then show ?case by (simp add: simpson_rule_minus Suc.IH Let_def)
qed

lemma simpson_rule_nonneg:
  assumes "a \<le> b" and "\<And>x. a \<le> x \<Longrightarrow> x \<le> b \<Longrightarrow> 0 \<le> f x"
  shows "0 \<le> simpson_rule f a b"
proof -
  have "0 \<le> f a" "0 \<le> f ((a + b) / 2)" "0 \<le> f b" using assms by simp_all
  then have "0 \<le> f a + 4 * f ((a + b) / 2) + f b" by simp
  moreover have "0 \<le> (b - a) / 6" using assms(1) by simp
  ultimately show ?thesis unfolding simpson_rule_def by (rule mult_nonneg_nonneg [rotated])
qed

lemma simpson_rule_pos:
  assumes "a < b" and "\<And>x. a \<le> x \<Longrightarrow> x \<le> b \<Longrightarrow> 0 \<le> f x" and "0 < f b"
  shows "0 < simpson_rule f a b"
proof -
  have "0 \<le> f a" "0 \<le> f ((a + b) / 2)" using assms by simp_all
  then have "0 < f a + 4 * f ((a + b) / 2) + f b" using assms(3) by simp
  moreover have "0 < (b - a) / 6" using assms(1) by simp
  ultimately show ?thesis unfolding simpson_rule_def by (rule mult_pos_pos [rotated])
qed

lemma adaptive_simpson_nonneg:
  assumes "a \<le> b" and "\<And>x. a \<le> x \<Longrightarrow> x \<le> b \<Longrightarrow> 0 \<le> f x"
  shows "0 \<le> adaptive_simpson n d f a b eps"
  using assms
proof (induction n arbitrary: d a b)
  case 0
  have "0 \<le> simpson_rule f a ((a + b) / 2)" using 0 by (intro simpson_rule_nonneg) simp_all
  moreover have "0 \<le> simpson_rule f ((a + b) / 2) b" using 0 by (intro simpson_rule_nonneg) simp_all
  ultimately show ?case by simp
next
  case (Suc n)
  have h1: "0 \<le> simpson_rule f a ((a + b) / 2)"
    using Suc.prems by (intro simpson_rule_nonneg) simp_all
  have h2: "0 \<le> simpson_rule f ((a + b) / 2) b"
    using Suc.prems by (intro simpson_rule_nonneg) simp_all
  have r1: "0 \<le> adaptive_simpson n (d - 1) f a ((a + b) / 2) eps"
    using Suc.prems by (intro Suc.IH) simp_all
  have r2: "0 \<le> adaptive_simpson n (d - 1) f ((a + b) / 2) b eps"
    using Suc.prems by (intro Suc.IH) simp_all
  show ?case using h1 h2 r1 r2 by (simp add: Let_def)
qed

lemma adaptive_simpson_pos:
  assumes "a < b" and "\<And>x. a \<le> x \<Longrightarrow> x \<le> b \<Longrightarrow> 0 \<le> f x" and "0 < f b"
  shows "0 < adaptive_simpson n d f a b eps"
  using assms
proof (induction n arbitrary: d a b)
  case 0
  have "0 \<le> simpson_rule f a ((a + b) / 2)" using 0 by (intro simpson_rule_nonneg) simp_all
  moreover have "0 < simpson_rule f ((a + b) / 2) b" using 0 by (intro simpson_rule_pos) simp_all
  ultimately show ?case by simp
next
  case (Suc n)
  have h1: "0 \<le> simpson_rule f a ((a + b) / 2)"
    using Suc.prems by (intro simpson_rule_nonneg) simp_all
  have h2: "0 < simpson_rule f ((a + b) / 2) b"
    using Suc.prems by (intro simpson_rule_pos) simp_all
  have r1: "0 \<le> adaptive_simpson n (d - 1) f a ((a + b) / 2) eps"
    using Suc.prems by (intro adaptive_simpson_nonneg) simp_all
  have r2: "0 < adaptive_simpson n (d - 1) f ((a + b) / 2) b eps"
    using Suc.prems by (intro Suc.IH) simp_all
  show ?case using h1 h2 r1 r2 by (simp add: Let_def)
qed

text \<open>
  In scenario S1 the integrand of the code vanishes at the lower limit and is positive
  above it, so the luminosity is positive, with any depth bound, minimum depth and
  tolerance of the integrator.
\<close>

lemma S1_integrand:
  shows "ln (12585009 / 2097152) \<le> x \<Longrightarrow> 0 \<le> func_luminosity scenario_S1 x"
    and "ln (12585009 / 2097152) < x \<Longrightarrow> 0 < func_luminosity scenario_S1 x"
proof -
  have strict: "0 < func_luminosity scenario_S1 x" if "ln (12585009 / 2097152) < x" for x
  proof -
    have "exp (ln (12585009 / 2097152 :: real)) < exp x" using that by (simp only: exp_less_cancel_iff)
    then have r: "12585009 / 2097152 < exp x" by simp
    then have r3: "3 < exp x" by simp
    have F: "0 < disk_nt_flux scenario_S1 (exp x)" using r by (rule S1_flux_pos)
    have U: "minus_U_t_spec 0 (exp x) < 0" using r3 by (rule minus_U_t_spec_neg)
    have "0 < 2 * pi * exp x * 2 * (- minus_U_t_spec 0 (exp x)) * disk_nt_flux scenario_S1 (exp x) * exp x"
      using F U by (intro mult_pos_pos) simp_all
    moreover have "disk_nt_bh_spin scenario_S1 = 0" by (simp add: scenario_S1_state)
    ultimately show ?thesis by (simp add: func_luminosity_sign dL_dlogr_spec_def)
  qed
  show "0 < func_luminosity scenario_S1 x" if "ln (12585009 / 2097152) < x" using that by (rule strict)
  show "0 \<le> func_luminosity scenario_S1 x" if "ln (12585009 / 2097152) \<le> x"
  proof (cases "ln (12585009 / 2097152) = x")
    case True
    then have "exp x = 12585009 / 2097152" by (simp add: True [symmetric])
    then have "disk_nt_flux scenario_S1 (exp x) = 0"
      by (simp add: flux_inside scenario_S1_state)
    then show ?thesis by (simp add: func_luminosity_sign dL_dlogr_spec_def)
  next
    case False
    then show ?thesis using that strict [of x] by simp
  qed
qed

lemma S1_integral_pos:
  "0 < adaptive_simpson n d (func_luminosity scenario_S1) (ln (disk_nt_disk_rms scenario_S1))
         (ln (10 ^ 5)) eps"
proof (rule adaptive_simpson_pos)
  have "(12585009 / 2097152 :: real) < 10 ^ 5" by simp
  then have l: "ln (12585009 / 2097152 :: real) < ln (10 ^ 5)" by (subst ln_less_cancel_iff) simp_all
  then show "ln (disk_nt_disk_rms scenario_S1) < ln (10 ^ 5)" by (simp add: scenario_S1_state)
  show "0 \<le> func_luminosity scenario_S1 x" if "ln (disk_nt_disk_rms scenario_S1) \<le> x" for x
    using that by (intro S1_integrand(1)) (simp add: scenario_S1_state)
  show "0 < func_luminosity scenario_S1 (ln (10 ^ 5))"
    using l by (rule S1_integrand(2))
qed

lemma S1_lumi_pos: "0 < disk_nt_lumi sim5_example scenario_S1"
proof -
  have "0 < adaptive_simpson 20 5 (func_luminosity scenario_S1) (ln (disk_nt_disk_rms scenario_S1))
      (ln (10 ^ 5)) (1 / 10 ^ 5)" by (rule S1_integral_pos)
  moreover have "disk_nt_bh_mass scenario_S1 = 10" by (simp add: scenario_S1_state)
  ultimately show ?thesis
    by (simp add: disk_nt_lumi_def Let_def sim5_example_def disk_rmax_value sqr_def)
qed

lemma S1_lumi_spec: "lumi_spec sim5_example scenario_S1 = - disk_nt_lumi sim5_example scenario_S1"
proof -
  have "(\<lambda>log_r. dL_dlogr_spec scenario_S1 (exp log_r)) = (\<lambda>log_r. - func_luminosity scenario_S1 log_r)"
    by (rule ext) (simp add: func_luminosity_sign)
  then show ?thesis
    by (simp add: lumi_spec_def disk_nt_lumi_def Let_def sim5_example_def disk_rmax_value sqr_def
        power2_eq_square adaptive_simpson_minus)
qed

text \<open>
  In scenario S1 the integrand of the code at \<open>r = 10\<close> is not the element of the
  specification, and the luminosity that \<^verbatim>\<open>disk_nt_lumi\<close> returns, which is positive, is
  not the integral of that element, which is negative.
\<close>

theorem lumi_sign_counterexample:
  "func_luminosity scenario_S1 (ln 10) \<noteq> dL_dlogr_spec scenario_S1 (exp (ln 10)) \<and>
   disk_nt_lumi sim5_example scenario_S1 \<noteq> lumi_spec sim5_example scenario_S1 \<and>
   0 < disk_nt_lumi sim5_example scenario_S1 \<and> lumi_spec sim5_example scenario_S1 < 0"
proof (intro conjI)
  have "(12585009 / 2097152 :: real) < 10" by simp
  then have "ln (12585009 / 2097152 :: real) < ln 10" by (subst ln_less_cancel_iff) simp_all
  then have "0 < func_luminosity scenario_S1 (ln 10)" by (rule S1_integrand(2))
  then show "func_luminosity scenario_S1 (ln 10) \<noteq> dL_dlogr_spec scenario_S1 (exp (ln 10))"
    unfolding func_luminosity_sign by simp
  show "disk_nt_lumi sim5_example scenario_S1 \<noteq> lumi_spec sim5_example scenario_S1"
    using S1_lumi_pos by (simp add: S1_lumi_spec)
  show "0 < disk_nt_lumi sim5_example scenario_S1" by (rule S1_lumi_pos)
  show "lumi_spec sim5_example scenario_S1 < 0" using S1_lumi_pos by (simp add: S1_lumi_spec)
qed

section \<open>Scaling with the accretion rate and the mass\<close>










subsection \<open>The adaptive rule and a constant factor\<close>

text \<open>
  The acceptance test of the adaptive rule compares the difference of two estimates with
  a threshold that does not depend on the integrand. A constant factor of the integrand
  can therefore change the point at which the refinement stops: on the integrand that is
  \<open>v\<close> at \<open>1/64\<close> and \<open>0\<close> elsewhere, with tolerance \<open>1/10\<close> on \<open>[0, 1]\<close>, the rule
  accepts at the sixth level for \<open>v = 1\<close> and one level deeper for \<open>v = 10\<close>.
\<close>

lemma adaptive_simpson_forced:
  "adaptive_simpson (Suc n) (Suc d) f a b eps =
     adaptive_simpson n d f a ((a + b) / 2) eps + adaptive_simpson n d f ((a + b) / 2) b eps"
  by (simp add: Let_def)

lemma adaptive_simpson_free:
  "adaptive_simpson (Suc n) 0 f a b eps =
     (if \<bar>simpson_rule f a ((a + b) / 2) + simpson_rule f ((a + b) / 2) b - simpson_rule f a b\<bar>
           < 15 * eps * (b - a)
      then simpson_rule f a ((a + b) / 2) + simpson_rule f ((a + b) / 2) b
      else adaptive_simpson n 0 f a ((a + b) / 2) eps + adaptive_simpson n 0 f ((a + b) / 2) b eps)"
  by (simp add: Let_def)

lemma adaptive_simpson_vanishes:
  assumes "a \<le> b" and "\<And>x. a \<le> x \<Longrightarrow> x \<le> b \<Longrightarrow> f x = 0"
  shows "adaptive_simpson n d f a b eps = 0"
proof -
  have "0 \<le> adaptive_simpson n d f a b eps"
    using assms by (intro adaptive_simpson_nonneg) simp_all
  moreover have "0 \<le> adaptive_simpson n d (\<lambda>x. - f x) a b eps"
    using assms by (intro adaptive_simpson_nonneg) simp_all
  ultimately show ?thesis by (simp add: adaptive_simpson_minus)
qed

lemma spike_away:
  assumes "a \<le> b" and "b < 1 / 64 \<or> 1 / 64 < a"
  shows "adaptive_simpson n d (spike v) a b eps = 0"
  using assms by (intro adaptive_simpson_vanishes) (auto simp add: spike_def)

lemma spike_node:
  "adaptive_simpson 20 5 (spike v) 0 1 eps = adaptive_simpson 15 0 (spike v) 0 (1 / 32) eps"
proof -
  have n: "(20 :: nat) = Suc (Suc (Suc (Suc (Suc 15))))" "(5 :: nat) = Suc (Suc (Suc (Suc (Suc 0))))"
    by simp_all
  show ?thesis
    unfolding n adaptive_simpson_forced by (simp add: spike_away)
qed

lemma spike_rules:
  "simpson_rule (spike v) 0 (1 / 32) = v / 48"
  "simpson_rule (spike v) 0 (1 / 64) = v / 384"
  "simpson_rule (spike v) (1 / 64) (1 / 32) = v / 384"
  "simpson_rule (spike v) 0 (1 / 128) = 0"
  "simpson_rule (spike v) (1 / 128) (1 / 64) = v / 768"
  "simpson_rule (spike v) (1 / 64) (3 / 128) = v / 768"
  "simpson_rule (spike v) (3 / 128) (1 / 32) = 0"
  by (simp_all add: simpson_rule_def spike_def)

lemma spike_small: "adaptive_simpson 20 5 (spike 1) 0 1 (1 / 10) = 1 / 192"
proof -
  have n: "(15 :: nat) = Suc 14" by simp
  show ?thesis
    unfolding spike_node n adaptive_simpson_free by (simp add: spike_rules)
qed

lemma spike_large: "adaptive_simpson 20 5 (spike 10) 0 1 (1 / 10) = 10 / 384"
proof -
  have n: "(15 :: nat) = Suc (Suc 13)" by simp
  show ?thesis
    unfolding spike_node n adaptive_simpson_free by (simp add: spike_rules)
qed

lemma adaptive_simpson_not_homogeneous: "\<not> homogeneous (adaptive_simpson 20 5)"
proof
  assume "homogeneous (adaptive_simpson 20 5)"
  then have "adaptive_simpson 20 5 (\<lambda>x. 10 * spike 1 x) 0 1 (1 / 10)
      = 10 * adaptive_simpson 20 5 (spike 1) 0 1 (1 / 10)"
    unfolding homogeneous_def by blast
  moreover have "(\<lambda>x. 10 * spike 1 x) = spike 10" by (rule ext) (simp add: spike_def)
  ultimately show False unfolding spike_small using spike_large by simp
qed

section \<open>The inverse: accretion rate for a given luminosity\<close>

text \<open>
  C8: \<^verbatim>\<open>disk_nt_find_mdot_for_luminosity\<close> hands the library's bisection the bracket
  \<open>[0, 100]\<close>, the tolerance \<open>10\<^sup>-\<^sup>6\<close> and a callback that stores the trial value in
  \<^verbatim>\<open>disk_nt_disk_mdot\<close> and then returns \<open>L0 - lumi\<close>; the bisection thus runs on the
  residual \<open>h(mdot) = L0 - lumi(mdot)\<close>, and the routine returns the root it reports on
  success and \<open>0\<close> on failure, leaving the last trial value in the static variable.
\<close>

theorem find_mdot_bisection:
  "fce E L0 m st = (residual E L0 st m, st\<lparr>disk_nt_disk_mdot := to_float m\<rparr>) \<and>
   disk_nt_find_mdot_for_luminosity E L0 st =
     ((case eval_rtbis (rtbis E 0 100 (1 / 10 ^ 6)) (residual E L0 st) of
         (res, L) \<Rightarrow> if res \<noteq> 0 then L else 0),
      stored_trial st (last_trial (rtbis E 0 100 (1 / 10 ^ 6)) (residual E L0 st)))"
  by (simp add: fce_residual disk_nt_find_mdot_for_luminosity_def run_rtbis_fce split: prod.splits)

subsection \<open>A setup whose inversion fails\<close>

text \<open>
  When the root finder reports failure, the inverse returns \<open>0\<close> and leaves the last
  trial value in \<^verbatim>\<open>disk_nt_disk_mdot\<close>; \<^verbatim>\<open>disk_nt_setup\<close> in luminosity mode then assigns
  the returned \<open>0\<close> to that variable, so \<^verbatim>\<open>disk_nt_mdot\<close> returns \<open>0\<close>. This holds for
  every root finder.
\<close>

lemma failed_inversion:
  assumes "opts AND DISK_NT_OPTION_LUMINOSITY E \<noteq> 0"
    and "fst (eval_rtbis (rtbis E 0 100 (1 / 10 ^ 6)) (residual E L0 (configured M a alpha opts st))) = 0"
  shows "fst (disk_nt_find_mdot_for_luminosity E L0 (configured M a alpha opts st)) = 0 \<and>
         snd (disk_nt_find_mdot_for_luminosity E L0 (configured M a alpha opts st)) =
           stored_trial (configured M a alpha opts st)
             (last_trial (rtbis E 0 100 (1 / 10 ^ 6)) (residual E L0 (configured M a alpha opts st))) \<and>
         disk_nt_mdot (snd (disk_nt_setup E M a L0 alpha opts st)) = 0"
  using assms by (simp add: find_mdot_parts setup_configured disk_nt_mdot_def to_float_0)

lemma simpson_rule_zero: "simpson_rule (\<lambda>x. 0) a b = 0"
  by (simp add: simpson_rule_def)

lemma adaptive_simpson_zero: "adaptive_simpson n d (\<lambda>x. 0) a b eps = 0"
  by (induction n arbitrary: d a b) (simp_all add: simpson_rule_zero Let_def)

lemma flux_no_mdot: "disk_nt_disk_mdot st = 0 \<Longrightarrow> disk_nt_flux st r = 0"
  by (simp add: disk_nt_flux_def Let_def)

lemma func_luminosity_no_mdot: "disk_nt_disk_mdot st = 0 \<Longrightarrow> func_luminosity st = (\<lambda>x. 0)"
  by (rule ext) (simp add: func_luminosity_def Let_def flux_no_mdot)

lemma lumi_no_mdot:
  "integrate_simpson E = adaptive_simpson n d \<Longrightarrow> disk_nt_disk_mdot st = 0 \<Longrightarrow> disk_nt_lumi E st = 0"
  by (simp add: disk_nt_lumi_def Let_def func_luminosity_no_mdot adaptive_simpson_zero)

lemma residual_0:
  "integrate_simpson E = adaptive_simpson n d \<Longrightarrow> residual E 0 st 0 = 0"
  by (simp add: residual_def lumi_no_mdot to_float_0)

text \<open>
  For the target luminosity \<open>0\<close> the residual vanishes at the lower end of the bracket,
  the sign condition fails and the bisection gives up after one evaluation at each end.
  Which end was tried last depends on the order of the two evaluations: \<open>100\<close> when the
  lower end comes first, \<open>0\<close> when the upper end comes first. After the setup
  \<^verbatim>\<open>disk_nt_mdot\<close> returns \<open>0\<close> in both cases.
\<close>

lemma failed_bracket_lo_first:
  "eval_rtbis (rtbis sim5_example 0 100 tol) (residual sim5_example 0 st) = (0, 0) \<and>
   last_trial (rtbis sim5_example 0 100 tol) (residual sim5_example 0 st) = Some 100 \<and>
   disk_nt_mdot (snd (disk_nt_setup sim5_example 10 0 0 (1 / 10) 1 disk_nt_initial)) = 0"
proof -
  have i: "integrate_simpson sim5_example = adaptive_simpson 20 5" by (simp add: sim5_example_def)
  have r: "rtbis sim5_example = rtbis_spec True 100" by (simp add: sim5_example_def)
  have b: "(1 :: 32 word) AND DISK_NT_OPTION_LUMINOSITY sim5_example \<noteq> 0" by (simp add: sim5_example_def)
  have e: "eval_rtbis (rtbis sim5_example 0 100 tol) (residual sim5_example 0 st) = (0, 0)" for tol st
    by (simp add: r rtbis_spec_def residual_0 [OF i])
  show ?thesis
    using failed_inversion [of 1 sim5_example 0 10 0 "1 / 10" disk_nt_initial] b
    by (simp add: e) (simp add: r rtbis_spec_def residual_0 [OF i])
qed

lemma failed_bracket_hi_first:
  "eval_rtbis (rtbis sim5_hi_first 0 100 tol) (residual sim5_hi_first 0 st) = (0, 0) \<and>
   last_trial (rtbis sim5_hi_first 0 100 tol) (residual sim5_hi_first 0 st) = Some 0 \<and>
   disk_nt_mdot (snd (disk_nt_setup sim5_hi_first 10 0 0 (1 / 10) 1 disk_nt_initial)) = 0"
proof -
  have i: "integrate_simpson sim5_hi_first = adaptive_simpson 20 5"
    by (simp add: sim5_hi_first_def sim5_example_def)
  have r: "rtbis sim5_hi_first = rtbis_spec False 100" by (simp add: sim5_hi_first_def)
  have b: "(1 :: 32 word) AND DISK_NT_OPTION_LUMINOSITY sim5_hi_first \<noteq> 0"
    by (simp add: sim5_hi_first_def sim5_example_def)
  have e: "eval_rtbis (rtbis sim5_hi_first 0 100 tol) (residual sim5_hi_first 0 st) = (0, 0)" for tol st
    by (simp add: r rtbis_spec_def residual_0 [OF i])
  show ?thesis
    using failed_inversion [of 1 sim5_hi_first 0 10 0 "1 / 10" disk_nt_initial] b
    by (simp add: e) (simp add: r rtbis_spec_def residual_0 [OF i])
qed

section \<open>Single precision storage\<close>

text \<open>
  C10: the configuration is kept in \<^verbatim>\<open>float\<close> variables. After
  \<^verbatim>\<open>disk_nt_setup(M, a, mdot, alpha, 0)\<close>, \<^verbatim>\<open>disk_nt_mdot\<close> returns \<open>mdot\<close> narrowed to
  \<^verbatim>\<open>float\<close>, which is \<open>mdot\<close> exactly when \<open>mdot\<close> is a binary32 number, and the state
  that every query reads holds the narrowed \<open>M\<close>, \<open>a\<close>, \<open>alpha\<close> and the narrowed
  inner edge computed from the narrowed spin.
\<close>

theorem float_storage:
  "disk_nt_mdot (snd (disk_nt_setup E M a mdot alpha 0 st)) = to_float mdot \<and>
   (disk_nt_mdot (snd (disk_nt_setup E M a mdot alpha 0 st)) = mdot \<longleftrightarrow> is_float mdot) \<and>
   snd (disk_nt_setup E M a mdot alpha 0 st) =
     \<lparr>disk_nt_bh_mass = to_float M, disk_nt_bh_spin = to_float a, disk_nt_disk_mdot = to_float mdot,
      disk_nt_disk_rms = to_float (disk_nt_r_min (snd (disk_nt_setup E M a mdot alpha 0 st))),
      disk_nt_disk_alpha = to_float alpha, disk_nt_options = 0\<rparr>"
proof -
  have "to_float mdot = mdot \<longleftrightarrow> is_float mdot"
    using is_float_exact [of mdot] to_float_is_float [of mdot] by auto
  then show ?thesis
    by (simp add: setup_configured configured_state disk_nt_mdot_def r_min_isco)
qed

theorem float_storage_witness:
  "disk_nt_mdot (snd (disk_nt_setup sim5_example 10 0 (1 / 10) (1 / 10) 0 disk_nt_initial))
     = 13421773 / 134217728 \<and> \<not> is_float (1 / 10) \<and>
   disk_nt_mdot (snd (disk_nt_setup sim5_example 10 0 (1 / 2) (1 / 10) 0 disk_nt_initial)) = 1 / 2 \<and>
   is_float (1 / 2)"
proof -
  let ?tenth = "snd (disk_nt_setup sim5_example 10 0 (1 / 10) (1 / 10) 0 disk_nt_initial)"
  let ?half = "snd (disk_nt_setup sim5_example 10 0 (1 / 2) (1 / 10) 0 disk_nt_initial)"
  have t1: "disk_nt_mdot ?tenth = to_float (1 / 10)"
    and t2: "disk_nt_mdot ?tenth = 1 / 10 \<longleftrightarrow> is_float (1 / 10)"
    using float_storage [of sim5_example 10 0 "1 / 10" "1 / 10" disk_nt_initial] by blast+
  have h1: "disk_nt_mdot ?half = to_float (1 / 2)"
    and h2: "disk_nt_mdot ?half = 1 / 2 \<longleftrightarrow> is_float (1 / 2)"
    using float_storage [of sim5_example 10 0 "1 / 2" "1 / 10" disk_nt_initial] by blast+
  have "\<not> is_float (1 / 10)" using t2 unfolding t1 to_float_tenth by simp
  moreover have "is_float (1 / 2)" using h2 unfolding h1 to_float_half by simp
  ultimately show ?thesis by (simp add: t1 h1 to_float_tenth to_float_half)
qed

end
